theory Spec2Isabelle
  imports Main "HOL-Library.Multiset" "HOL-Library.Word"
begin

section \<open>Data model of tegra-bootloader-update.c\<close>

text \<open>
  Modelled from the spec: \<open>gpt_entry_t\<close> is declared in gpt.h, which is not among the
  sources. The spec's partition descriptor has a first and a last LBA, both counted in
  512-byte sectors; the program reads exactly these two fields.
\<close>

record gpt_entry =
  first_lba :: nat
  last_lba :: nat

text \<open>
  \<open>struct update_entry_s\<close>. The pointer \<open>part\<close> is \<open>None\<close> when it is NULL; the
  field \<open>length\<close> is called \<open>length_bytes\<close> here, since \<open>length\<close> is the list
  function of HOL.
\<close>

record update_entry =
  partname :: string
  part :: "gpt_entry option"
  devname :: string
  bup_offset :: nat
  length_bytes :: nat

section \<open>Ordering of the redundant entries\<close>

subsection \<open>order_entries (tegra186/tegra194)\<close>

text \<open>
  The seven index variables of \<open>order_entries\<close> (\<open>-1\<close>: not seen) and the filled
  prefix \<open>ordered[0..j-1]\<close> of the output array; \<open>j\<close> is the length of \<open>oe_ordered\<close>.
\<close>

record oe_state =
  oe_mb1 :: int
  oe_mb1_b :: int
  oe_bct :: int
  oe_bct1 :: int
  oe_bct2 :: int
  oe_mb2 :: int
  oe_mb2_b :: int
  oe_ordered :: "update_entry list"

definition oe_init :: oe_state where
  "oe_init = \<lparr>oe_mb1 = -1, oe_mb1_b = -1, oe_bct = -1, oe_bct1 = -1, oe_bct2 = -1,
     oe_mb2 = -1, oe_mb2_b = -1, oe_ordered = []\<rparr>"

text \<open>One iteration of the first loop, for the index \<open>i\<close>.\<close>

definition oe_step :: "update_entry list \<Rightarrow> oe_state \<Rightarrow> nat \<Rightarrow> oe_state" where
  "oe_step orig s i =
     (if partname (orig ! i) = ''mb1'' then s\<lparr>oe_mb1 := int i\<rparr>
      else if partname (orig ! i) = ''mb1_b'' then s\<lparr>oe_mb1_b := int i\<rparr>
      else if partname (orig ! i) = ''mb2'' then s\<lparr>oe_mb2 := int i\<rparr>
      else if partname (orig ! i) = ''mb2_b'' then s\<lparr>oe_mb2_b := int i\<rparr>
      else if partname (orig ! i) = ''BCT'' then
        (if oe_bct s = -1 then s\<lparr>oe_bct := int i\<rparr>
         else if oe_bct1 s = -1 then s\<lparr>oe_bct1 := int i\<rparr>
         else if oe_bct2 s = -1 then s\<lparr>oe_bct2 := int i\<rparr>
         else s)
      else s\<lparr>oe_ordered := oe_ordered s @ [orig ! i]\<rparr>)"

text \<open>\<open>if (idx >= 0) ordered[j++] = &orig[idx];\<close>\<close>

definition oe_emit :: "update_entry list \<Rightarrow> int \<Rightarrow> update_entry list \<Rightarrow> update_entry list" where
  "oe_emit orig idx out = (if idx \<ge> 0 then out @ [orig ! nat idx] else out)"

text \<open>
  \<open>order_entries\<close>: the array \<open>orig\<close> with its \<open>count\<close> entries is the list \<open>orig\<close>;
  the result is the filled prefix of \<open>ordered\<close>. When \<open>j \<noteq> count\<close> the source only
  prints a warning, and the rest of \<open>ordered\<close> stays as it was.
\<close>

definition order_entries :: "update_entry list \<Rightarrow> update_entry list" where
  "order_entries orig =
     (let s = foldl (oe_step orig) oe_init [0..<length orig]
      in oe_emit orig (oe_mb1_b s) (oe_emit orig (oe_mb1 s)
           (oe_emit orig (oe_bct2 s) (oe_emit orig (oe_bct1 s) (oe_emit orig (oe_bct s)
             (oe_emit orig (oe_mb2_b s) (oe_emit orig (oe_mb2 s) (oe_ordered s))))))))"

text \<open>The names that \<open>order_entries\<close> moves behind the other entries.\<close>

definition oe_special :: "update_entry \<Rightarrow> bool" where
  "oe_special e = (partname e \<in> {''mb1'', ''mb1_b'', ''mb2'', ''mb2_b'', ''BCT''})"

definition named :: "string \<Rightarrow> update_entry \<Rightarrow> bool" where
  "named n = (\<lambda>e. partname e = n)"

text \<open>Every entry satisfying \<open>P\<close> stands before every entry satisfying \<open>Q\<close>.\<close>

definition all_before :: "('a \<Rightarrow> bool) \<Rightarrow> ('a \<Rightarrow> bool) \<Rightarrow> 'a list \<Rightarrow> bool" where
  "all_before P Q zs =
     (\<forall>i < length zs. \<forall>j < length zs. P (zs ! i) \<and> Q (zs ! j) \<longrightarrow> i < j)"

text \<open>Auxiliary notions for the proofs about \<open>order_entries\<close>: the entry an index
  variable stands for, and the state of the first loop after \<open>k\<close> iterations.\<close>

definition oe_one :: "update_entry list \<Rightarrow> int \<Rightarrow> update_entry list" where
  "oe_one orig idx = (if idx \<ge> 0 then [orig ! nat idx] else [])"

definition oe_scan :: "update_entry list \<Rightarrow> nat \<Rightarrow> oe_state" where
  "oe_scan xs k = foldl (oe_step xs) oe_init [0..<k]"

text \<open>An update entry that has only a name, for concrete instances.\<close>

definition ent_named :: "string \<Rightarrow> update_entry" where
  "ent_named n = \<lparr>partname = n, part = None, devname = [], bup_offset = 0, length_bytes = 0\<rparr>"

subsection \<open>order_entries_t210 (tegra210)\<close>

text \<open>The two fixed tables of partition names, in update order.\<close>

definition t210_emmc_partnames :: "string list" where
  "t210_emmc_partnames =
     [''VER_b'', ''BCT'', ''NVC-1'',
      ''PT-1'', ''TBC-1'', ''RP1-1'', ''EBT-1'', ''WB0-1'', ''BPF-1'', ''DTB-1'', ''TOS-1'',
      ''EKS-1'', ''LNX-1'',
      ''BCT'',
      ''BCT'',
      ''PT'', ''TBC'', ''RP1'', ''EBT'', ''WB0'', ''BPF'', ''DTB'', ''TOS'', ''EKS'', ''LNX'',
      ''NVC'', ''VER'']"

definition t210_spi_sd_partnames :: "string list" where
  "t210_spi_sd_partnames =
     [''VER_b'', ''BCT'', ''NVC_R'',
      ''BCT'',
      ''BCT'',
      ''PT'', ''TBC'', ''RP1'', ''EBT'', ''WB0'', ''BPF'', ''DTB'', ''TOS'', ''EKS'', ''LNX'',
      ''NVC'', ''VER'']"

text \<open>
  \<open>find_entry_by_name\<close>: the loop over \<open>list[i]\<close>, \<open>i\<close> counting up from 0. The pointer
  it returns is modelled by the index it points at; NULL is \<open>None\<close>.
\<close>

fun find_entry_loop :: "update_entry list \<Rightarrow> nat \<Rightarrow> string \<Rightarrow> nat option" where
  "find_entry_loop [] i name = None"
| "find_entry_loop (e # es) i name =
     (if partname e = name then Some i else find_entry_loop es (Suc i) name)"

definition find_entry_by_name :: "update_entry list \<Rightarrow> string \<Rightarrow> nat option" where
  "find_entry_by_name list name = find_entry_loop list 0 name"

text \<open>
  The first loop of \<open>order_entries_t210\<close>, over the names of the table. The state is the
  filled prefix of \<open>ordered\<close> (\<open>retcount\<close> is its length) and the array \<open>used\<close>;
  \<open>None\<close> is the \<open>return 0\<close> in the loop. \<open>memcmp(name, "EKS", 3) == 0\<close> compares the
  first three characters.
\<close>

fun oe_t210_template ::
  "update_entry list \<Rightarrow> string list \<Rightarrow> update_entry list \<times> bool list
     \<Rightarrow> (update_entry list \<times> bool list) option" where
  "oe_t210_template orig [] st = Some st"
| "oe_t210_template orig (n # ns) (ordered, used) =
     (case find_entry_by_name orig n of
        None \<Rightarrow>
          if take 3 n = ''EKS'' then oe_t210_template orig ns (ordered, used) else None
      | Some k \<Rightarrow> oe_t210_template orig ns (ordered @ [orig ! k], used[k := True]))"

text \<open>
  \<open>order_entries_t210\<close>. The global \<open>spiboot_platform\<close> is the argument \<open>spi\<close>. The
  result is the filled prefix of \<open>ordered\<close>, and the returned count is its length: the
  empty list stands for \<open>return 0\<close>. \<open>used\<close> has 128 elements.
\<close>

definition order_entries_t210 :: "bool \<Rightarrow> update_entry list \<Rightarrow> update_entry list" where
  "order_entries_t210 spi orig =
     (let update_list = (if spi then t210_spi_sd_partnames else t210_emmc_partnames)
      in if length orig > 128 then []
         else case oe_t210_template orig update_list ([], replicate 128 False) of
                None \<Rightarrow> []
              | Some (ordered, used) \<Rightarrow>
                  ordered @ map (\<lambda>i. orig ! i) (filter (\<lambda>i. \<not> used ! i) [0..<length orig]))"

text \<open>The table that \<open>order_entries_t210\<close> selects.\<close>

definition t210_update_list :: "bool \<Rightarrow> string list" where
  "t210_update_list spi = (if spi then t210_spi_sd_partnames else t210_emmc_partnames)"

text \<open>
  For the statements about \<open>order_entries_t210\<close>: a name of the table that is not the
  name of an entry and does not begin with EKS; the entries found for the names of the
  table, in the order of the table; and whether the entry at an index was found for a
  name of the table.
\<close>

definition t210_fatal :: "update_entry list \<Rightarrow> string list \<Rightarrow> bool" where
  "t210_fatal orig ns = (\<exists>n \<in> set ns. n \<notin> partname ` set orig \<and> take 3 n \<noteq> ''EKS'')"

definition t210_found :: "update_entry list \<Rightarrow> string list \<Rightarrow> update_entry list" where
  "t210_found orig ns =
     map (\<lambda>n. orig ! the (find_entry_by_name orig n)) (filter (\<lambda>n. n \<in> partname ` set orig) ns)"

definition t210_consumed :: "update_entry list \<Rightarrow> string list \<Rightarrow> nat \<Rightarrow> bool" where
  "t210_consumed orig ns i = (\<exists>n \<in> set ns. find_entry_by_name orig n = Some i)"

section \<open>Devices, buffers and the system calls\<close>

type_synonym byte = "8 word"

text \<open>
  \<open>tegra_soctype_t\<close> comes from tegra-eeprom/cvm.h; the program names four of its
  values, and treats every other value as unrecognized.
\<close>

datatype soctype_t =
  TEGRA_SOCTYPE_INVALID | TEGRA_SOCTYPE_186 | TEGRA_SOCTYPE_194 | TEGRA_SOCTYPE_210
  | TEGRA_SOCTYPE_OTHER

text \<open>
  A file descriptor is modelled by what it is open on: the boot device, the second boot
  ("GPT") device, the BUP payload, or the device node of a path.
\<close>

datatype handle = BootDev | GptDev | BupFile | Node string

text \<open>
  A block device or file: its size in bytes and its contents. A write at or past the end
  fails, a write that crosses the end is short, a read at the end returns 0 and a read
  that crosses the end is short.
\<close>

record device =
  dv_size :: nat
  dv_cell :: "nat \<Rightarrow> byte"

text \<open>The system calls that change a device, in the order the program made them.\<close>

datatype event =
    EvLseek handle nat
  | EvWrite handle nat "byte list"
  | EvFsync handle
  | EvGptSave
  | EvSetRedundancy
  | EvSlotMarkActive nat
  | EvSmdUpdate

text \<open>Why a function of the program returned \<open>-1\<close>; \<open>Fault\<close> is undefined behaviour of
  the C program (an access outside a buffer, a NULL dereference, a division by zero).\<close>

datatype error =
    EIO
  | EInternal
  | EValidation
  | EPageSize
  | EBlockSize
  | ETooLarge
  | EPastEnd
  | ESetpos
  | EReadContent
  | Fault

text \<open>
  The devices with their file positions, the log of system calls, and the global
  variables of the program. \<open>zerobuf\<close> is allocated with \<open>calloc(1, slotbuf_size)\<close> and
  never written, so it is not a field: see \<open>zerobuf\<close> below.
\<close>

record world =
  w_dev :: "handle \<Rightarrow> device option"
  w_pos :: "handle \<Rightarrow> nat"
  w_log :: "event list"
  contentbuf :: "byte list"
  contentbuf_size :: nat
  slotbuf :: "byte list"
  slotbuf_size :: nat
  bct_updated :: bool
  soctype :: soctype_t
  spiboot_platform :: bool
  bootdev_size :: nat

definition zerobuf :: "world \<Rightarrow> byte list" where
  "zerobuf w = replicate (slotbuf_size w) 0"

text \<open>\<open>lseek(fd, offset, SEEK_SET)\<close>: the new offset, or \<open>-1\<close> on a descriptor that is not open.\<close>

definition sys_lseek :: "handle \<Rightarrow> nat \<Rightarrow> world \<Rightarrow> int \<times> world" where
  "sys_lseek fd offset w =
     (case w_dev w fd of
        None \<Rightarrow> (-1, w)
      | Some d \<Rightarrow> (int offset, w\<lparr>w_pos := (w_pos w)(fd := offset),
                                   w_log := w_log w @ [EvLseek fd offset]\<rparr>))"

text \<open>\<open>lseek(fd, 0, SEEK_END)\<close>: the size of the device.\<close>

definition sys_lseek_end :: "handle \<Rightarrow> world \<Rightarrow> int \<times> world" where
  "sys_lseek_end fd w =
     (case w_dev w fd of
        None \<Rightarrow> (-1, w)
      | Some d \<Rightarrow> (int (dv_size d), w\<lparr>w_pos := (w_pos w)(fd := dv_size d)\<rparr>))"

text \<open>The contents of a device after \<open>bytes\<close> were stored at \<open>p\<close>.\<close>

definition dev_store :: "device \<Rightarrow> nat \<Rightarrow> byte list \<Rightarrow> device" where
  "dev_store d p bytes =
     d\<lparr>dv_cell := (\<lambda>i. if p \<le> i \<and> i < p + length bytes then bytes ! (i - p) else dv_cell d i)\<rparr>"

text \<open>\<open>write(fd, bytes, length bytes)\<close> at the file position: the count written, or \<open>-1\<close>.\<close>

definition sys_write :: "handle \<Rightarrow> byte list \<Rightarrow> world \<Rightarrow> int \<times> world" where
  "sys_write fd bytes w =
     (case w_dev w fd of
        None \<Rightarrow> (-1, w)
      | Some d \<Rightarrow>
          (let p = w_pos w fd; k = min (length bytes) (dv_size d - p)
           in if k = 0 then (-1, w)
              else (int k, w\<lparr>w_dev := (w_dev w)(fd := Some (dev_store d p (take k bytes))),
                              w_pos := (w_pos w)(fd := p + k),
                              w_log := w_log w @ [EvWrite fd p (take k bytes)]\<rparr>)))"

text \<open>\<open>read(fd, buf, count)\<close> at the file position: the count read (0 at the end of the
  device, \<open>-1\<close> on error) and the bytes.\<close>

definition sys_read :: "handle \<Rightarrow> nat \<Rightarrow> world \<Rightarrow> int \<times> byte list \<times> world" where
  "sys_read fd cnt w =
     (case w_dev w fd of
        None \<Rightarrow> (-1, [], w)
      | Some d \<Rightarrow>
          (let p = w_pos w fd; k = min cnt (dv_size d - p)
           in (int k, map (dv_cell d) [p..<p + k], w\<lparr>w_pos := (w_pos w)(fd := p + k)\<rparr>)))"

definition sys_fsync :: "handle \<Rightarrow> world \<Rightarrow> world" where
  "sys_fsync fd w = w\<lparr>w_log := w_log w @ [EvFsync fd]\<rparr>"

text \<open>A buffer after \<open>bytes\<close> were copied to its offset \<open>off\<close>.\<close>

definition buf_store :: "byte list \<Rightarrow> nat \<Rightarrow> byte list \<Rightarrow> byte list" where
  "buf_store buf off bytes = take off buf @ bytes @ drop (off + length bytes) buf"

text \<open>
  \<open>memcmp(a, b + boff, n) == 0\<close>; \<open>None\<close> when the comparison reads outside of one of
  the buffers.
\<close>

definition memcmp_eq :: "byte list \<Rightarrow> byte list \<Rightarrow> nat \<Rightarrow> nat \<Rightarrow> bool option" where
  "memcmp_eq a b boff n =
     (if n > length a \<or> boff + n > length b then None
      else Some (take n a = take n (drop boff b)))"

subsection \<open>read_completely_at and write_completely_at\<close>

text \<open>
  The loop of \<open>read_completely_at\<close>. Every call in the program reads into \<open>slotbuf\<close>, so
  the buffer is the global one. A read that would leave the buffer is a \<open>Fault\<close>.
\<close>

function read_loop :: "handle \<Rightarrow> nat \<Rightarrow> nat \<Rightarrow> world \<Rightarrow> (error + nat) \<times> world" where
  "read_loop fd tot remain w =
     (if remain = 0 then (Inr tot, w)
      else if tot + remain > length (slotbuf w) then (Inl Fault, w)
      else case sys_read fd remain w of
        (n, bytes, w') \<Rightarrow>
          if n \<le> 0 then (Inl EIO, w')
          else read_loop fd (tot + nat n) (remain - nat n)
                 (w'\<lparr>slotbuf := buf_store (slotbuf w') tot bytes\<rparr>))"
  by pat_completeness auto
termination
  by (relation "measure (\<lambda>(fd, tot, remain, w). remain)") auto

definition read_completely_at :: "handle \<Rightarrow> nat \<Rightarrow> nat \<Rightarrow> world \<Rightarrow> (error + nat) \<times> world" where
  "read_completely_at fd bufsiz offset w =
     (case sys_lseek fd offset w of
        (r, w1) \<Rightarrow> if r = -1 then (Inl EIO, w1) else read_loop fd 0 bufsiz w1)"

text \<open>The two loops of \<open>write_completely_at\<close>: \<open>write(fd, buf + tot, remain)\<close> until
  nothing remains.\<close>

function write_loop :: "handle \<Rightarrow> byte list \<Rightarrow> nat \<Rightarrow> nat \<Rightarrow> world \<Rightarrow> (error + nat) \<times> world" where
  "write_loop fd buf tot remain w =
     (if remain = 0 then (Inr tot, w)
      else if tot + remain > length buf then (Inl Fault, w)
      else case sys_write fd (take remain (drop tot buf)) w of
        (n, w') \<Rightarrow>
          if n \<le> 0 then (Inl EIO, w')
          else write_loop fd buf (tot + nat n) (remain - nat n) w')"
  by pat_completeness auto
termination
  by (relation "measure (\<lambda>(fd, buf, tot, remain, w). remain)") auto

definition write_completely_at ::
  "handle \<Rightarrow> byte list \<Rightarrow> nat \<Rightarrow> nat \<Rightarrow> nat \<Rightarrow> world \<Rightarrow> (error + nat) \<times> world" where
  "write_completely_at fd buf bufsiz offset erase_size w =
     (case sys_lseek fd offset w of
        (r, w1) \<Rightarrow>
          if r = -1 then (Inl EIO, w1)
          else if erase_size \<noteq> 0 then
            (case write_loop fd (zerobuf w1) 0 erase_size w1 of
               (Inl e, w2) \<Rightarrow> (Inl e, w2)
             | (Inr t, w2) \<Rightarrow>
                 (case sys_lseek fd offset (sys_fsync fd w2) of
                    (r', w3) \<Rightarrow>
                      if r' = -1 then (Inl EIO, w3) else write_loop fd buf 0 bufsiz w3))
          else write_loop fd buf 0 bufsiz w1)"

section \<open>External modules\<close>

text \<open>\<open>struct ver_info_s\<close> of ver.h, as far as the program reads it.\<close>

record ver_info =
  bsp_version :: nat
  crc :: nat

text \<open>
  The functions of the other modules (bct.h, ver.h, util.h, bup.h, gpt.h, smd.h, cvm.h)
  and of the C library, whose sources are not part of this file: they are parameters of
  the model, one field for each function the program calls.
  \<^item> \<open>bct_update_valid_t18x\<close>, \<open>bct_update_valid_t19x\<close>: current and new BCT.
  \<^item> \<open>bct_update_valid_t21x\<close> also receives pointers to \<open>block_size\<close> and \<open>page_size\<close>
    and may change them: \<open>None\<close> is an invalid update, \<open>Some\<close> holds the two values
    after the call.
  \<^item> \<open>ver_extract_info\<close>: the return code and the contents of the structure after the
    call.
  \<^item> \<open>partition_should_be_present\<close>: whether a missing device node is an error.
  \<^item> \<open>cvm_soctype\<close>, \<open>smd_get_current_slot\<close>: their return values.
  \<^item> \<open>bup_init\<close>, \<open>gpt_init\<close>, \<open>smd_new\<close>, \<open>smd_init\<close>: whether the context returned is
    not NULL; \<open>malloc_ok\<close>: whether the three buffers were allocated.
  \<^item> \<open>bup_boot_device\<close>: the path of the boot device.
  \<^item> \<open>bup_entries\<close>: what \<open>bup_enumerate_entries\<close> yields, entry by entry: name, offset
    and length.
  \<^item> \<open>gpt_find_by_name\<close>: the partition of a name, in the table that was loaded.
  \<^item> \<open>access_rw\<close>: \<open>access(path, F_OK|W_OK) == 0\<close>.
  \<^item> \<open>gpt_load\<close>, \<open>gpt_load_from_config\<close>, \<open>gpt_save\<close>, \<open>gpt_layout_config_match\<close>,
    \<open>bup_find_missing_entries\<close>, \<open>smd_set_redundancy_level\<close>, \<open>smd_slot_mark_active\<close>,
    \<open>smd_update\<close>: their return values; \<open>smd_redundancy_full\<close>: whether
    \<open>smd_redundancy_level\<close> returns \<open>REDUNDANCY_FULL\<close>.
\<close>

record extern =
  bct_update_valid_t18x :: "byte list \<Rightarrow> byte list \<Rightarrow> bool"
  bct_update_valid_t19x :: "byte list \<Rightarrow> byte list \<Rightarrow> bool"
  bct_update_valid_t21x :: "byte list \<Rightarrow> byte list \<Rightarrow> nat \<Rightarrow> nat \<Rightarrow> (nat \<times> nat) option"
  ver_extract_info :: "byte list \<Rightarrow> int \<times> ver_info"
  partition_should_be_present :: "string \<Rightarrow> bool"
  cvm_soctype :: soctype_t
  smd_get_current_slot :: int
  bup_init :: bool
  bup_boot_device :: string
  bup_entries :: "(string \<times> nat \<times> nat) list"
  bup_find_missing_entries :: int
  gpt_init :: bool
  gpt_load :: int
  gpt_load_from_config :: int
  gpt_save :: int
  gpt_layout_config_match :: int
  gpt_find_by_name :: "string \<Rightarrow> gpt_entry option"
  access_rw :: "string \<Rightarrow> bool"
  malloc_ok :: bool
  smd_new :: bool
  smd_init :: bool
  smd_redundancy_full :: bool
  smd_set_redundancy_level :: int
  smd_slot_mark_active :: "nat \<Rightarrow> int"
  smd_update :: int

section \<open>Writing the BCT\<close>

text \<open>
  The size of a partition in bytes, \<open>(last_lba - first_lba + 1) * 512\<close>, as the program
  computes it in several places. The two fields are unsigned 64-bit integers and the
  result is a \<open>size_t\<close>, so for \<open>last_lba < first_lba\<close> the expression wraps around:
  it is 0 for \<open>first_lba = last_lba + 1\<close>.
\<close>

definition partsize_of :: "gpt_entry \<Rightarrow> nat" where
  "partsize_of p = nat (((int (last_lba p) - int (first_lba p) + 1) * 512) mod 2 ^ 64)"

text \<open>
  The conversion of an \<open>unsigned int\<close> to \<open>int\<close>, as in the assignment
  \<open>bctcount = bctpartsize / block_size\<close>: values from \<open>2^31\<close> on become negative.
\<close>

definition int_of_uint :: "nat \<Rightarrow> int" where
  "int_of_uint n =
     (if n mod 2 ^ 32 < 2 ^ 31 then int (n mod 2 ^ 32) else int (n mod 2 ^ 32) - 2 ^ 32)"

text \<open>
  \<open>curbct != NULL && memcmp(newbct, (uint8_t *)curbct + offset, ent->length) == 0\<close>:
  \<open>None\<close> when the comparison leaves a buffer.
\<close>

definition bct_same :: "byte list option \<Rightarrow> byte list \<Rightarrow> nat \<Rightarrow> nat \<Rightarrow> bool option" where
  "bct_same curbct newbct offset len =
     (case curbct of None \<Rightarrow> Some False | Some cur \<Rightarrow> memcmp_eq newbct cur offset len)"

subsection \<open>update_bct (tegra186/tegra194)\<close>

text \<open>The \<open>switch (i)\<close> of the loop.\<close>

definition bct_offset :: "nat \<Rightarrow> nat \<Rightarrow> nat \<Rightarrow> nat" where
  "bct_offset i bctslotsize block_size =
     (if i = 0 then bctslotsize else if i = 1 then block_size else 0)"

text \<open>The loop \<open>for (i = 0; i < 3; i++)\<close>.\<close>

function update_bct_loop ::
  "handle \<Rightarrow> byte list option \<Rightarrow> byte list \<Rightarrow> update_entry \<Rightarrow> nat \<Rightarrow> nat \<Rightarrow> nat \<Rightarrow> world
     \<Rightarrow> (error + unit) \<times> world" where
  "update_bct_loop bootfd curbct newbct ent block_size bctslotsize i w =
     (if \<not> i < 3 then (Inr (), w)
      else case bct_same curbct newbct (bct_offset i bctslotsize block_size) (length_bytes ent) of
        None \<Rightarrow> (Inl Fault, w)
      | Some True \<Rightarrow> update_bct_loop bootfd curbct newbct ent block_size bctslotsize (i + 1) w
      | Some False \<Rightarrow>
          (case part ent of
             None \<Rightarrow> (Inl Fault, w)
           | Some p \<Rightarrow>
               (case write_completely_at bootfd newbct (length_bytes ent)
                       (first_lba p * 512 + bct_offset i bctslotsize block_size) bctslotsize w of
                  (Inl e, w') \<Rightarrow> (Inl e, w')
                | (Inr t, w') \<Rightarrow>
                    update_bct_loop bootfd curbct newbct ent block_size bctslotsize (i + 1) w')))"
  by pat_completeness auto
termination
  by (relation "measure (\<lambda>(bootfd, curbct, newbct, ent, block_size, bctslotsize, i, w). 3 - i)") auto

definition update_bct ::
  "extern \<Rightarrow> handle \<Rightarrow> byte list option \<Rightarrow> byte list \<Rightarrow> update_entry \<Rightarrow> world
     \<Rightarrow> (error + unit) \<times> world" where
  "update_bct x bootfd curbct newbct ent w =
     (let block_size = (if spiboot_platform w then 32768 else 16384);
          page_size = (if spiboot_platform w then 2048 else 512)
      in if soctype w = TEGRA_SOCTYPE_210 then (Inl EInternal, w)
         else if (case curbct of
                    None \<Rightarrow> False
                  | Some cur \<Rightarrow>
                      (soctype w = TEGRA_SOCTYPE_186 \<and> \<not> bct_update_valid_t18x x cur newbct) \<or>
                      (soctype w = TEGRA_SOCTYPE_194 \<and> \<not> bct_update_valid_t19x x cur newbct))
         then (Inl EValidation, w)
         else
           (let bctslotsize = page_size * ((length_bytes ent + (page_size - 1)) div page_size)
            in case update_bct_loop bootfd curbct newbct ent block_size bctslotsize 0 w of
                 (Inl e, w') \<Rightarrow> (Inl e, w')
               | (Inr u, w') \<Rightarrow> (Inr (), (sys_fsync bootfd w')\<lparr>bct_updated := True\<rparr>)))"

subsection \<open>update_bct_t210\<close>

text \<open>
  The loop \<open>for (bctidx = bctstart; bctidx >= bctend; bctidx -= 1)\<close>. \<open>bctidx\<close> is an
  \<open>int\<close> and \<open>block_size\<close> an \<open>unsigned int\<close>, so their product is taken modulo \<open>2^32\<close>
  before it becomes the \<open>off_t offset\<close>. The data written is the global \<open>contentbuf\<close>.
\<close>

function update_bct_t210_loop ::
  "handle \<Rightarrow> byte list option \<Rightarrow> byte list \<Rightarrow> update_entry \<Rightarrow> nat \<Rightarrow> nat \<Rightarrow> int \<Rightarrow> int \<Rightarrow> world
     \<Rightarrow> (error + unit) \<times> world" where
  "update_bct_t210_loop bootfd curbct newbct ent block_size bctcopies bctidx bctend w =
     (if \<not> bctidx \<ge> bctend then (Inr (), w)
      else case bct_same curbct newbct (nat ((bctidx * int block_size) mod 2 ^ 32)) (length_bytes ent) of
        None \<Rightarrow> (Inl Fault, w)
      | Some True \<Rightarrow>
          update_bct_t210_loop bootfd curbct newbct ent block_size bctcopies (bctidx - 1) bctend w
      | Some False \<Rightarrow>
          (case part ent of
             None \<Rightarrow> (Inl Fault, w)
           | Some p \<Rightarrow>
               (case write_completely_at bootfd (contentbuf w) (length_bytes ent)
                       (first_lba p * 512 + nat ((bctidx * int block_size) mod 2 ^ 32))
                       (length_bytes ent) w of
                  (Inl e, w1) \<Rightarrow> (Inl e, w1)
                | (Inr t, w1) \<Rightarrow>
                    if bctidx = 0 \<and> bctcopies = 2 then
                      (case write_completely_at bootfd (contentbuf w1) (length_bytes ent)
                              (first_lba p * 512
                                 + (nat ((bctidx * int block_size) mod 2 ^ 32) + length_bytes ent))
                              (length_bytes ent) w1 of
                         (Inl e, w2) \<Rightarrow> (Inl e, w2)
                       | (Inr t', w2) \<Rightarrow>
                           update_bct_t210_loop bootfd curbct newbct ent block_size bctcopies
                             (bctidx - 1) bctend w2)
                    else update_bct_t210_loop bootfd curbct newbct ent block_size bctcopies
                           (bctidx - 1) bctend w1)))"
  by pat_completeness auto
termination
  by (relation "measure (\<lambda>(bootfd, curbct, newbct, ent, block_size, bctcopies, bctidx, bctend, w).
        nat (bctidx - bctend + 1))") auto

text \<open>
  The three cases of \<open>*which\<close>: the first and the last index of the loop, and the next
  value of \<open>*which\<close>.
\<close>

definition bct_t210_range :: "int \<Rightarrow> int \<Rightarrow> int \<times> int \<times> int" where
  "bct_t210_range which bctcount =
     (if which < 0 then (bctcount - 1, bctcount - 1, 1)
      else if which = 0 then (0, 0, -1)
      else (bctcount - 2, 1, 0))"

text \<open>
  \<open>update_bct_t210\<close>. \<open>which\<close> is \<open>None\<close> for a NULL pointer; the result holds the value
  of \<open>*which\<close> after the call. \<open>bctpartsize\<close> is an \<open>unsigned int\<close>, and the
  quotient \<open>bctpartsize / block_size\<close> is converted to the \<open>int\<close> \<open>bctcount\<close> before it is
  compared with 64.
\<close>

definition update_bct_t210 ::
  "extern \<Rightarrow> handle \<Rightarrow> byte list option \<Rightarrow> byte list \<Rightarrow> update_entry \<Rightarrow> int option \<Rightarrow> world
     \<Rightarrow> (error + int) \<times> world" where
  "update_bct_t210 x bootfd curbct newbct ent which w =
     (let bctcopies = (if spiboot_platform w then 2 else 1 :: nat)
      in if soctype w \<noteq> TEGRA_SOCTYPE_210 then (Inl EInternal, w)
         else case which of
           None \<Rightarrow> (Inl EInternal, w)
         | Some wh \<Rightarrow>
            (case (case curbct of
                     None \<Rightarrow> Some (if spiboot_platform w then 32768 else 16384,
                                    if spiboot_platform w then 2048 else 512)
                   | Some cur \<Rightarrow>
                       bct_update_valid_t21x x cur newbct
                         (if spiboot_platform w then 32768 else 16384)
                         (if spiboot_platform w then 2048 else 512)) of
               None \<Rightarrow> (Inl EValidation, w)
             | Some (block_size, page_size) \<Rightarrow>
                 if page_size = 0 then (Inl Fault, w)
                 else if length_bytes ent mod page_size \<noteq> 0 then (Inl EPageSize, w)
                 else if length_bytes ent * bctcopies > block_size then (Inl EBlockSize, w)
                 else
                   (case part ent of
                      None \<Rightarrow> (Inl Fault, w)
                    | Some p \<Rightarrow>
                        if block_size = 0 then (Inl Fault, w)
                        else
                          (let bctpartsize = partsize_of p mod 2 ^ 32;
                               bctcount = min 64 (int_of_uint (bctpartsize div block_size))
                           in case bct_t210_range wh bctcount of
                                (bctstart, bctend, wh') \<Rightarrow>
                                  (case update_bct_t210_loop bootfd curbct newbct ent block_size
                                          bctcopies bctstart bctend w of
                                     (Inl e, w') \<Rightarrow> (Inl e, w')
                                   | (Inr u, w') \<Rightarrow>
                                       (Inr wh', (sys_fsync bootfd w')\<lparr>bct_updated := True\<rparr>))))))"

section \<open>Updating one partition\<close>

text \<open>
  \<open>maybe_update_bootpart\<close>. \<open>gptfd\<close> is \<open>None\<close> when it is negative, \<open>bctctx\<close> is \<open>None\<close>
  when it is NULL; the result holds the value of \<open>*bctctx\<close> after the call.
\<close>

definition maybe_update_bootpart ::
  "extern \<Rightarrow> handle \<Rightarrow> handle option \<Rightarrow> update_entry \<Rightarrow> bool \<Rightarrow> nat \<Rightarrow> int option \<Rightarrow> world
     \<Rightarrow> (error + int option) \<times> world" where
  "maybe_update_bootpart x bootfd gptfd ent is_bct initialize bctctx w =
     (case part ent of
        None \<Rightarrow> (Inl Fault, w)
      | Some p \<Rightarrow>
          (let partsize = partsize_of p
           in if length_bytes ent > partsize then (Inl ETooLarge, w)
              else if first_lba p * 512 \<ge> bootdev_size w \<and> gptfd = None then (Inl EPastEnd, w)
              else
                (let fd = (if first_lba p * 512 \<ge> bootdev_size w then the gptfd else bootfd);
                     offset = (if first_lba p * 512 \<ge> bootdev_size w
                               then first_lba p * 512 - bootdev_size w else first_lba p * 512)
                 in case read_completely_at fd partsize offset w of
                      (Inl e, w1) \<Rightarrow> (Inl e, w1)
                    | (Inr t, w1) \<Rightarrow>
                        if is_bct then
                          (if soctype w1 = TEGRA_SOCTYPE_210 then
                             (case update_bct_t210 x bootfd
                                     (if initialize \<noteq> 0 then None else Some (slotbuf w1))
                                     (contentbuf w1) ent bctctx w1 of
                                (Inl e, w2) \<Rightarrow> (Inl e, w2)
                              | (Inr wh, w2) \<Rightarrow> (Inr (Some wh), w2))
                           else
                             (case update_bct x bootfd
                                     (if initialize \<noteq> 0 then None else Some (slotbuf w1))
                                     (contentbuf w1) ent w1 of
                                (Inl e, w2) \<Rightarrow> (Inl e, w2)
                              | (Inr u, w2) \<Rightarrow> (Inr bctctx, w2)))
                        else
                          (case memcmp_eq (contentbuf w1) (slotbuf w1) 0 (length_bytes ent) of
                             None \<Rightarrow> (Inl Fault, w1)
                           | Some True \<Rightarrow> (Inr bctctx, w1)
                           | Some False \<Rightarrow>
                               (case write_completely_at fd (contentbuf w1) (length_bytes ent)
                                       offset partsize w1 of
                                  (Inl e, w2) \<Rightarrow> (Inl e, w2)
                                | (Inr t', w2) \<Rightarrow> (Inr bctctx, sys_fsync fd w2))))))"

text \<open>
  Modelled from the spec: \<open>bup_setpos\<close> and \<open>bup_read\<close> belong to bup.h, which is not
  among the sources. The spec gives \<open>setpos(ctx, offset)\<close> and
  \<open>read(ctx, buf, n) \<rightarrow> bytes_read\<close>: the payload is a file with a position, and a read
  returns at most \<open>n\<close> bytes from the position on.
\<close>

definition bup_setpos :: "nat \<Rightarrow> world \<Rightarrow> int \<times> world" where
  "bup_setpos offset w = sys_lseek BupFile offset w"

definition bup_read :: "nat \<Rightarrow> world \<Rightarrow> int \<times> byte list \<times> world" where
  "bup_read cnt w = sys_read BupFile cnt w"

text \<open>
  The loop that reads the content of an entry into \<open>contentbuf\<close>:
  \<open>for (tot = 0; tot < ent->length; tot += n) n = bup_read(bupctx, contentbuf + tot,
  contentbuf_size - tot)\<close>. A negative \<open>contentbuf_size - tot\<close> would be a huge \<open>size_t\<close>,
  and a read beyond the allocated buffer is a \<open>Fault\<close>.
\<close>

function read_content :: "nat \<Rightarrow> nat \<Rightarrow> world \<Rightarrow> (error + unit) \<times> world" where
  "read_content len tot w =
     (if \<not> tot < len then (Inr (), w)
      else if contentbuf_size w < tot then (Inl Fault, w)
      else case bup_read (contentbuf_size w - tot) w of
        (n, bytes, w') \<Rightarrow>
          if n \<le> 0 then (Inl EReadContent, w')
          else if tot + nat n > length (contentbuf w') then (Inl Fault, w')
          else read_content len (tot + nat n)
                 (w'\<lparr>contentbuf := buf_store (contentbuf w') tot bytes\<rparr>))"
  by pat_completeness auto
termination
  by (relation "measure (\<lambda>(len, tot, w). len - tot)") auto

text \<open>
  \<open>process_entry\<close>. The device node of an entry without a partition is opened by its
  path; \<open>erase_size\<close> is an \<open>unsigned int\<close>, so the test \<open>erase_size < 0\<close> never holds.
\<close>

definition process_entry ::
  "extern \<Rightarrow> handle \<Rightarrow> handle option \<Rightarrow> update_entry \<Rightarrow> bool \<Rightarrow> nat \<Rightarrow> int option \<Rightarrow> world
     \<Rightarrow> (error + int option) \<times> world" where
  "process_entry x bootfd gptfd ent dryrun initialize bctctx w =
     (case bup_setpos (bup_offset ent) w of
        (r, w0) \<Rightarrow>
          if r = -1 then (Inl ESetpos, w0)
          else case read_content (length_bytes ent) 0 w0 of
            (Inl e, w1) \<Rightarrow> (Inl e, w1)
          | (Inr u, w1) \<Rightarrow>
              if dryrun then (Inr bctctx, w1)
              else if part ent \<noteq> None then
                maybe_update_bootpart x bootfd gptfd ent (partname ent = ''BCT'') initialize bctctx w1
              else if w_dev w1 (Node (devname ent)) = None then (Inl EIO, w1)
              else case sys_lseek_end (Node (devname ent)) w1 of
                (sz, w2) \<Rightarrow>
                  (case sys_lseek (Node (devname ent)) 0 w2 of
                     (r', w3) \<Rightarrow>
                       if r' < 0 then (Inl EIO, w3)
                       else case write_completely_at (Node (devname ent)) (contentbuf w3)
                                   (length_bytes ent) 0 (nat (sz mod 2 ^ 32)) w3 of
                         (Inl e, w4) \<Rightarrow> (Inl e, w4)
                       | (Inr t, w4) \<Rightarrow> (Inr bctctx, sys_fsync (Node (devname ent)) w4)))"

section \<open>The version gate\<close>

text \<open>
  \<open>redundant_part_format\<close> applied to the name itself, as every call in the program
  does: \<open>sprintf(buf, redundant_part_format(partname), partname)\<close>.
\<close>

definition redundant_part_format :: "world \<Rightarrow> string \<Rightarrow> string" where
  "redundant_part_format w name =
     (if soctype w \<noteq> TEGRA_SOCTYPE_210 then name @ ''_b''
      else if name = ''NVC'' then (if spiboot_platform w then name @ ''_R'' else name @ ''-1'')
      else if name = ''VER'' then name @ ''_b''
      else name @ ''-1'')"

text \<open>
  Reading a whole partition into \<open>slotbuf\<close>, as \<open>nvc_parts_match\<close> and
  \<open>invalid_version_or_downgrade\<close> do: the descriptor is \<open>gptfd\<close> when the partition
  starts past the end of the boot device. These two functions do not test \<open>gptfd\<close>; a
  negative descriptor makes \<open>lseek\<close> fail.
\<close>

definition read_partition :: "handle \<Rightarrow> handle option \<Rightarrow> gpt_entry \<Rightarrow> world \<Rightarrow> (error + nat) \<times> world" where
  "read_partition bootfd gptfd p w =
     (if first_lba p * 512 \<ge> bootdev_size w then
        (case gptfd of
           None \<Rightarrow> (Inl EIO, w)
         | Some g \<Rightarrow> read_completely_at g (partsize_of p) (first_lba p * 512 - bootdev_size w) w)
      else read_completely_at bootfd (partsize_of p) (first_lba p * 512) w)"

text \<open>
  Modelled from the spec: \<open>crc32\<close> is the function of zlib, which is not among the
  sources; the program only compares two of its values. The model keeps the bytes that
  were summed, so two values are equal exactly when the bytes are: a collision of two
  different contents is not modelled.
\<close>

definition crc32 :: "byte list \<Rightarrow> byte list" where
  "crc32 bytes = bytes"

text \<open>\<open>nvc_parts_match\<close>; \<open>nvc\<close> holds the two pointers.\<close>

definition nvc_parts_match ::
  "handle \<Rightarrow> handle option \<Rightarrow> update_entry option \<times> update_entry option \<Rightarrow> world
     \<Rightarrow> (error + bool) \<times> world" where
  "nvc_parts_match bootfd gptfd nvc w =
     (case nvc of
        (Some n0, Some n1) \<Rightarrow>
          (case (part n0, part n1) of
             (Some p0, Some p1) \<Rightarrow>
               (case read_partition bootfd gptfd p0 w of
                  (Inl e, w1) \<Rightarrow> (if e = Fault then Inl Fault else Inr False, w1)
                | (Inr t, w1) \<Rightarrow>
                    (case read_partition bootfd gptfd p1 w1 of
                       (Inl e, w2) \<Rightarrow> (if e = Fault then Inl Fault else Inr False, w2)
                     | (Inr t', w2) \<Rightarrow>
                         (Inr (crc32 (take (partsize_of p0) (slotbuf w1))
                                 = crc32 (take (partsize_of p1) (slotbuf w2))), w2)))
           | _ \<Rightarrow> (Inr False, w))
      | _ \<Rightarrow> (Inr False, w))"

text \<open>The first loop of \<open>invalid_version_or_downgrade\<close>: \<open>ver[0]\<close>, \<open>ver[1]\<close>, \<open>nvc[0]\<close>,
  \<open>nvc[1]\<close>; a later entry of the same name replaces an earlier one.\<close>

record ver_nvc =
  ver0 :: "update_entry option"
  ver1 :: "update_entry option"
  nvc0 :: "update_entry option"
  nvc1 :: "update_entry option"

definition ver_nvc_step :: "string \<Rightarrow> string \<Rightarrow> ver_nvc \<Rightarrow> update_entry \<Rightarrow> ver_nvc" where
  "ver_nvc_step ver_b_name nvc_b_name s e =
     (if partname e = ''VER'' then s\<lparr>ver0 := Some e\<rparr>
      else if partname e = ''NVC'' then s\<lparr>nvc0 := Some e\<rparr>
      else if partname e = ver_b_name then s\<lparr>ver1 := Some e\<rparr>
      else if partname e = nvc_b_name then s\<lparr>nvc1 := Some e\<rparr>
      else s)"

definition find_ver_nvc :: "world \<Rightarrow> update_entry list \<Rightarrow> ver_nvc" where
  "find_ver_nvc w entry_list =
     foldl (ver_nvc_step (redundant_part_format w ''VER'') (redundant_part_format w ''NVC''))
       \<lparr>ver0 = None, ver1 = None, nvc0 = None, nvc1 = None\<rparr> entry_list"

text \<open>
  One round of the loop over the two version partitions: \<open>Inr None\<close> is the
  \<open>return true\<close> in the loop, \<open>Inr (Some v)\<close> the contents of \<open>verinfo[i]\<close> after the
  round. The structure is zeroed first, and the return code of \<open>ver_extract_info\<close> is
  not looked at.
\<close>

definition read_verinfo ::
  "extern \<Rightarrow> handle \<Rightarrow> handle option \<Rightarrow> update_entry option \<Rightarrow> world
     \<Rightarrow> (error + ver_info option) \<times> world" where
  "read_verinfo x bootfd gptfd v w =
     (case v of
        None \<Rightarrow> (Inr (Some \<lparr>bsp_version = 0, crc = 0\<rparr>), w)
      | Some e \<Rightarrow>
          (case part e of
             None \<Rightarrow> (Inr None, w)
           | Some p \<Rightarrow>
               (case read_partition bootfd gptfd p w of
                  (Inl er, w1) \<Rightarrow> (if er = Fault then Inl Fault else Inr None, w1)
                | (Inr t, w1) \<Rightarrow>
                    (Inr (Some (snd (ver_extract_info x (take (partsize_of p) (slotbuf w1))))), w1))))"

text \<open>
  The checks at the end of \<open>invalid_version_or_downgrade\<close>, from the comparison of the
  two versions on. \<open>nvc_parts_match\<close> is called only where the source calls it.
\<close>

definition version_checks ::
  "handle \<Rightarrow> handle option \<Rightarrow> update_entry option \<times> update_entry option \<Rightarrow> bool
     \<Rightarrow> ver_info \<Rightarrow> ver_info \<Rightarrow> ver_info \<Rightarrow> world \<Rightarrow> (error + bool) \<times> world" where
  "version_checks bootfd gptfd nvc force_initialize v0 v1 bup_verinfo w =
     (if bsp_version v0 = bsp_version v1 \<and> bsp_version v0 \<noteq> 0 then
        (if bsp_version v0 > bsp_version bup_verinfo then (Inr True, w)
         else if crc v0 = crc v1 then
           (case nvc_parts_match bootfd gptfd nvc w of
              (Inl e, w1) \<Rightarrow> (Inl e, w1)
            | (Inr m, w1) \<Rightarrow> (Inr (\<not> m), w1))
         else (Inr False, w))
      else if bsp_version v1 = 0 \<and> bsp_version v0 \<noteq> 0
              \<and> bsp_version v0 > bsp_version bup_verinfo then
        (if force_initialize then (Inr False, w) else (Inr True, w))
      else if bsp_version v1 \<noteq> 0 \<and> bsp_version v1 \<noteq> bsp_version bup_verinfo then (Inr True, w)
      else if force_initialize then (Inr False, w)
      else (Inr True, w))"

text \<open>
  \<open>invalid_version_or_downgrade\<close>: \<open>Inr True\<close> when the update cannot be applied. The
  result is \<open>Inl Fault\<close> only where the C program has undefined behaviour.
\<close>

definition invalid_version_or_downgrade ::
  "extern \<Rightarrow> handle \<Rightarrow> handle option \<Rightarrow> update_entry list \<Rightarrow> bool \<Rightarrow> world
     \<Rightarrow> (error + bool) \<times> world" where
  "invalid_version_or_downgrade x bootfd gptfd entry_list force_initialize w =
     (let f = find_ver_nvc w entry_list
      in case ver0 f of
           None \<Rightarrow> (Inr False, w)
         | Some v \<Rightarrow>
            (case bup_setpos (bup_offset v) w of
               (r, w0) \<Rightarrow>
                 if r = -1 then (Inr True, w0)
                 else case read_content (length_bytes v) 0 w0 of
                   (Inl e, w1) \<Rightarrow> (if e = Fault then Inl Fault else Inr True, w1)
                 | (Inr u, w1) \<Rightarrow>
                     if length_bytes v > length (contentbuf w1) then (Inl Fault, w1)
                     else if fst (ver_extract_info x (take (length_bytes v) (contentbuf w1))) \<noteq> 0
                     then (Inr True, w1)
                     else case read_verinfo x bootfd gptfd (ver0 f) w1 of
                       (Inl e, w2) \<Rightarrow> (Inl e, w2)
                     | (Inr None, w2) \<Rightarrow> (Inr True, w2)
                     | (Inr (Some v0), w2) \<Rightarrow>
                         (case read_verinfo x bootfd gptfd (ver1 f) w2 of
                            (Inl e, w3) \<Rightarrow> (Inl e, w3)
                          | (Inr None, w3) \<Rightarrow> (Inr True, w3)
                          | (Inr (Some v1), w3) \<Rightarrow>
                              version_checks bootfd gptfd (nvc0 f, nvc1 f) force_initialize v0 v1
                                (snd (ver_extract_info x (take (length_bytes v) (contentbuf w1))))
                                w3)))"

section \<open>The main program\<close>

subsection \<open>Options\<close>

text \<open>What \<open>getopt_long_only\<close> returns, option by option.\<close>

datatype cli_opt = Opt_h | Opt_i | Opt_s string | Opt_n | Opt_N | Opt_version | Opt_unrecognized

text \<open>The local variables of \<open>main\<close> that the options set.\<close>

record cli =
  opt_initialize :: nat
  opt_suffix :: "string option"
  opt_dryrun :: bool
  opt_slot_specified :: bool
  opt_check_only :: bool

definition cli_init :: cli where
  "cli_init = \<lparr>opt_initialize = 0, opt_suffix = None, opt_dryrun = False,
     opt_slot_specified = False, opt_check_only = False\<rparr>"

text \<open>The option loop: \<open>Inl r\<close> is a \<open>return r\<close> inside the loop.\<close>

fun parse_options :: "cli_opt list \<Rightarrow> cli \<Rightarrow> int + cli" where
  "parse_options [] c = Inr c"
| "parse_options (Opt_h # os) c = Inl 0"
| "parse_options (Opt_i # os) c =
     (if opt_suffix c \<noteq> None then Inl 1 else parse_options os (c\<lparr>opt_initialize := 1\<rparr>))"
| "parse_options (Opt_s optarg # os) c =
     (if opt_initialize c \<noteq> 0 then Inl 1
      else if (if optarg = ''_a'' then [] else optarg) \<noteq> []
              \<and> (if optarg = ''_a'' then [] else optarg) \<noteq> ''_b'' then Inl 1
      else parse_options os
             (c\<lparr>opt_suffix := Some (if optarg = ''_a'' then [] else optarg),
                opt_slot_specified := True\<rparr>))"
| "parse_options (Opt_n # os) c = parse_options os (c\<lparr>opt_dryrun := True\<rparr>)"
| "parse_options (Opt_N # os) c = parse_options os (c\<lparr>opt_check_only := True, opt_dryrun := True\<rparr>)"
| "parse_options (Opt_version # os) c = Inl 0"
| "parse_options (Opt_unrecognized # os) c = Inl 1"

text \<open>
  The choice of the slot by the SoC type: the options with \<open>suffix\<close> and \<open>initialize\<close>
  changed, and \<open>curslot\<close>; \<open>Inl r\<close> is a \<open>return r\<close>.
\<close>

definition select_slot :: "extern \<Rightarrow> cli \<Rightarrow> soctype_t \<Rightarrow> int + cli \<times> int" where
  "select_slot x c soc =
     (if soc = TEGRA_SOCTYPE_186 \<or> soc = TEGRA_SOCTYPE_194 then
        (if \<not> opt_slot_specified c \<and> opt_initialize c = 0 then
           (if smd_get_current_slot x < 0 then Inl 1
            else if smd_get_current_slot x = 0
            then Inr (c\<lparr>opt_suffix := Some ''_b''\<rparr>, smd_get_current_slot x)
            else Inr (c\<lparr>opt_suffix := Some []\<rparr>, smd_get_current_slot x))
         else Inr (c, -1))
      else if soc = TEGRA_SOCTYPE_210 then
        (if opt_slot_specified c then Inl 1
         else Inr (c\<lparr>opt_initialize := opt_initialize c + 1\<rparr>, -1))
      else Inl 1)"

subsection \<open>The update tasks\<close>

text \<open>The two arrays of entries with their counts, \<open>largest_length\<close> and \<open>mb1_other\<close>.\<close>

record plan =
  redundant_entries :: "update_entry list"
  nonredundant_entries :: "update_entry list"
  largest_length :: nat
  mb1_other :: update_entry

definition MAX_ENTRIES :: nat where
  "MAX_ENTRIES = 64"

definition updent_of :: "string \<Rightarrow> nat \<Rightarrow> nat \<Rightarrow> update_entry" where
  "updent_of name offset len =
     \<lparr>partname = name, part = None, devname = [], bup_offset = offset, length_bytes = len\<rparr>"

definition plan_init :: plan where
  "plan_init = \<lparr>redundant_entries = [], nonredundant_entries = [], largest_length = 0,
     mb1_other = updent_of [] 0 0\<rparr>"

definition add_redundant :: "update_entry list \<Rightarrow> plan \<Rightarrow> plan" where
  "add_redundant es pl = pl\<lparr>redundant_entries := redundant_entries pl @ es\<rparr>"

definition add_nonredundant :: "update_entry list \<Rightarrow> plan \<Rightarrow> plan" where
  "add_nonredundant es pl = pl\<lparr>nonredundant_entries := nonredundant_entries pl @ es\<rparr>"

text \<open>
  One round of the loop over \<open>bup_enumerate_entries\<close>. \<open>Inl EPlan\<close> is a
  \<open>goto reset_and_depart\<close>; \<open>Inl Fault\<close> is a store behind the end of one of the two
  arrays, which only the first store of a partition of the boot device is guarded
  against, or the test \<open>*suffix\<close> of a NULL \<open>suffix\<close> (when not initializing, \<open>suffix\<close>
  is set on every path to the loop).
\<close>

datatype plan_error = EPlan | PlanFault

definition plan_step ::
  "extern \<Rightarrow> world \<Rightarrow> nat \<Rightarrow> string option \<Rightarrow> plan \<Rightarrow> string \<times> nat \<times> nat \<Rightarrow> plan_error + plan" where
  "plan_step x w initialize suffix pl0 ent =
     (case ent of
        (name, offset, len) \<Rightarrow>
     (let partname_b = redundant_part_format w name;
          updent = updent_of name offset len;
          pl = pl0\<lparr>largest_length := (if len > largest_length pl0 then len else largest_length pl0)\<rparr>
      in case gpt_find_by_name x name of
           Some prt \<Rightarrow>
             (if initialize \<noteq> 0 then
                (if gpt_find_by_name x partname_b \<noteq> None \<or> name = ''BCT'' then
                   (if length (redundant_entries pl) \<ge> MAX_ENTRIES then Inl EPlan
                    else if gpt_find_by_name x partname_b \<noteq> None then
                      (if length (redundant_entries pl) + 1 \<ge> MAX_ENTRIES then Inl PlanFault
                       else Inr (add_redundant
                              [updent\<lparr>part := Some prt\<rparr>,
                               updent\<lparr>partname := partname_b, part := gpt_find_by_name x partname_b\<rparr>] pl))
                    else Inr (add_redundant [updent\<lparr>part := Some prt\<rparr>] pl))
                 else if length (nonredundant_entries pl) \<ge> MAX_ENTRIES then Inl EPlan
                 else Inr (add_nonredundant [updent\<lparr>part := Some prt\<rparr>] pl))
              else if gpt_find_by_name x partname_b \<noteq> None \<or> name = ''BCT'' then
                (if length (redundant_entries pl) \<ge> MAX_ENTRIES then Inl EPlan
                 else case suffix of
                   None \<Rightarrow> Inl PlanFault
                 | Some sfx \<Rightarrow>
                     Inr (add_redundant
                            [updent\<lparr>partname := (if gpt_find_by_name x partname_b = None \<or> sfx = []
                                                  then name else partname_b),
                                     part := (if gpt_find_by_name x partname_b = None \<or> sfx = []
                                              then Some prt else gpt_find_by_name x partname_b)\<rparr>]
                            (if name = ''mb1''
                             then pl\<lparr>mb1_other :=
                                    updent\<lparr>partname := (if sfx = [] then partname_b else name),
                                            part := (if sfx = [] then gpt_find_by_name x partname_b
                                                     else Some prt)\<rparr>\<rparr>
                             else pl)))
              else Inr pl)
         | None \<Rightarrow>
             (if \<not> access_rw x (''/dev/disk/by-partlabel/'' @ name) then
                (if partition_should_be_present x name then Inl EPlan else Inr pl)
              else if initialize \<noteq> 0 then
                (if access_rw x (''/dev/disk/by-partlabel/'' @ partname_b) then
                   (if length (redundant_entries pl) + 2 > MAX_ENTRIES then Inl PlanFault
                    else Inr (add_redundant
                           [updent\<lparr>devname := ''/dev/disk/by-partlabel/'' @ name\<rparr>,
                            updent\<lparr>partname := partname_b,
                                    devname := ''/dev/disk/by-partlabel/'' @ partname_b\<rparr>] pl))
                 else if length (nonredundant_entries pl) \<ge> MAX_ENTRIES then Inl PlanFault
                 else Inr (add_nonredundant
                        [updent\<lparr>devname := ''/dev/disk/by-partlabel/'' @ name\<rparr>] pl))
              else if access_rw x (''/dev/disk/by-partlabel/'' @ partname_b) then
                (case suffix of
                   None \<Rightarrow> Inl PlanFault
                 | Some sfx \<Rightarrow>
                     if length (redundant_entries pl) \<ge> MAX_ENTRIES then Inl PlanFault
                     else Inr (add_redundant
                            [updent\<lparr>partname := (if sfx = [] then name else partname_b),
                                     devname := (if sfx = [] then ''/dev/disk/by-partlabel/'' @ name
                                                 else ''/dev/disk/by-partlabel/'' @ partname_b)\<rparr>] pl))
              else Inr pl)))"

fun build_plan ::
  "extern \<Rightarrow> world \<Rightarrow> nat \<Rightarrow> string option \<Rightarrow> (string \<times> nat \<times> nat) list \<Rightarrow> plan
     \<Rightarrow> plan_error + plan" where
  "build_plan x w initialize suffix [] pl = Inr pl"
| "build_plan x w initialize suffix (ent # ents) pl =
     (case plan_step x w initialize suffix pl ent of
        Inl e \<Rightarrow> Inl e
      | Inr pl' \<Rightarrow> build_plan x w initialize suffix ents pl')"

text \<open>\<open>find_largest_partition\<close>: one of its two loops, and the function; \<open>None\<close> is the
  return value \<open>-1\<close>.\<close>

fun largest_of :: "world \<Rightarrow> update_entry list \<Rightarrow> nat \<Rightarrow> nat option" where
  "largest_of w [] largest = Some largest"
| "largest_of w (e # es) largest =
     (case part e of
        Some p \<Rightarrow> largest_of w es (if partsize_of p > largest then partsize_of p else largest)
      | None \<Rightarrow>
          (case w_dev w (Node (devname e)) of
             None \<Rightarrow> None
           | Some d \<Rightarrow> largest_of w es (if dv_size d > largest then dv_size d else largest)))"

definition find_largest_partition :: "world \<Rightarrow> plan \<Rightarrow> nat option" where
  "find_largest_partition w pl =
     (case largest_of w (redundant_entries pl) 0 of
        None \<Rightarrow> None
      | Some l \<Rightarrow>
          (case largest_of w (nonredundant_entries pl) l of
             None \<Rightarrow> None
           | Some l' \<Rightarrow> Some (512 * ((l' + 511) div 512))))"

subsection \<open>Processing the entries\<close>

text \<open>The loops \<open>for (i = 0; i < count; i++) if (process_entry(...) != 0) goto
  reset_and_depart\<close>.\<close>

fun process_entries ::
  "extern \<Rightarrow> handle \<Rightarrow> handle option \<Rightarrow> update_entry list \<Rightarrow> bool \<Rightarrow> nat \<Rightarrow> int option \<Rightarrow> world
     \<Rightarrow> (error + int option) \<times> world" where
  "process_entries x fd gptfd [] dryrun initialize bctctx w = (Inr bctctx, w)"
| "process_entries x fd gptfd (e # es) dryrun initialize bctctx w =
     (case process_entry x fd gptfd e dryrun initialize bctctx w of
        (Inl er, w') \<Rightarrow> (Inl er, w')
      | (Inr bctctx', w') \<Rightarrow> process_entries x fd gptfd es dryrun initialize bctctx' w')"

definition log_event :: "event \<Rightarrow> world \<Rightarrow> world" where
  "log_event ev w = w\<lparr>w_log := w_log w @ [ev]\<rparr>"

text \<open>
  The result of a part of \<open>main\<close>: \<open>Inl Fault\<close> where the C program has undefined
  behaviour, else \<open>Inr ret\<close> with the value of \<open>ret\<close> at \<open>reset_and_depart\<close>.
\<close>

definition depart :: "(error + 'a) \<times> world \<Rightarrow> (error + int) \<times> world" where
  "depart r = (case r of (Inl e, w) \<Rightarrow> (if e = Fault then Inl Fault else Inr 1, w)
                       | (Inr v, w) \<Rightarrow> (Inr 0, w))"

text \<open>
  The slot metadata at the end of the tegra186/tegra194 branch. \<open>newslot\<close> is an
  \<open>unsigned int\<close>. After a failure of \<open>smd_update\<close> the program calls \<open>perror\<close>
  and goes on as after a success, to \<open>ret = 0\<close>.
\<close>

definition main_commit :: "extern \<Rightarrow> cli \<Rightarrow> int \<Rightarrow> world \<Rightarrow> (error + int) \<times> world" where
  "main_commit x c curslot w =
     (if \<not> opt_slot_specified c then
        (if opt_dryrun c then (Inr 0, w)
         else if smd_slot_mark_active x
                   (nat ((if opt_initialize c \<noteq> 0 then 0 else 1 - curslot) mod 2 ^ 32)) < 0
         then (Inr 1, log_event (EvSlotMarkActive
                   (nat ((if opt_initialize c \<noteq> 0 then 0 else 1 - curslot) mod 2 ^ 32))) w)
         else if smd_update x < 0
         then (Inr 0, log_event EvSmdUpdate (log_event (EvSlotMarkActive
                   (nat ((if opt_initialize c \<noteq> 0 then 0 else 1 - curslot) mod 2 ^ 32))) w))
         else (Inr 0, log_event EvSmdUpdate (log_event (EvSlotMarkActive
                   (nat ((if opt_initialize c \<noteq> 0 then 0 else 1 - curslot) mod 2 ^ 32))) w)))
      else (Inr 0, w))"

text \<open>
  The branch of \<open>main\<close> for tegra186 and tegra194. \<open>ordered_entries\<close> is read up to
  \<open>redundant_entry_count\<close>: where \<open>order_entries\<close> filled less, the loop reads a pointer
  that was never set.
\<close>

definition main_run_t18x ::
  "extern \<Rightarrow> cli \<Rightarrow> int \<Rightarrow> handle option \<Rightarrow> plan \<Rightarrow> world \<Rightarrow> (error + int) \<times> world" where
  "main_run_t18x x c curslot gptfd pl w =
     (case process_entries x BootDev gptfd (order_entries (redundant_entries pl))
             (opt_dryrun c) (opt_initialize c) None w of
        (Inl e, w1) \<Rightarrow> depart (Inl e :: error + unit, w1)
      | (Inr b, w1) \<Rightarrow>
          if length (order_entries (redundant_entries pl)) < length (redundant_entries pl)
          then (Inl Fault, w1)
          else if opt_initialize c \<noteq> 0 then
            (case process_entries x BootDev gptfd (nonredundant_entries pl)
                     (opt_dryrun c) (opt_initialize c) None w1 of
               (Inl e, w2) \<Rightarrow> depart (Inl e :: error + unit, w2)
             | (Inr b', w2) \<Rightarrow> main_commit x c curslot w2)
          else if bct_updated w1 then
            (if partname (mb1_other pl) = [] then (Inr 1, w1)
             else case process_entry x BootDev gptfd (mb1_other pl)
                         (opt_dryrun c) (opt_initialize c) None w1 of
               (Inl e, w2) \<Rightarrow> depart (Inl e :: error + unit, w2)
             | (Inr b', w2) \<Rightarrow> main_commit x c curslot w2)
          else main_commit x c curslot w1)"

text \<open>The branch of \<open>main\<close> for tegra210; \<open>ordered_entries\<close> has \<open>MAX_ENTRIES\<close> elements.\<close>

definition main_run_t210 ::
  "extern \<Rightarrow> cli \<Rightarrow> handle option \<Rightarrow> plan \<Rightarrow> world \<Rightarrow> (error + int) \<times> world" where
  "main_run_t210 x c gptfd pl w =
     (case invalid_version_or_downgrade x BootDev gptfd (redundant_entries pl)
             (opt_initialize c > 1) w of
        (Inl e, w1) \<Rightarrow> (Inl Fault, w1)
      | (Inr True, w1) \<Rightarrow> (Inr 1, w1)
      | (Inr False, w1) \<Rightarrow>
          if order_entries_t210 (spiboot_platform w1) (redundant_entries pl) = [] then (Inr 1, w1)
          else if length (order_entries_t210 (spiboot_platform w1) (redundant_entries pl)) > MAX_ENTRIES
          then (Inl Fault, w1)
          else depart (process_entries x BootDev gptfd
                         (order_entries_t210 (spiboot_platform w1) (redundant_entries pl))
                         (opt_dryrun c) (opt_initialize c) (Some (-1)) w1))"

text \<open>
  The buffers: \<open>contentbuf\<close>, \<open>slotbuf\<close> and \<open>zerobuf\<close>. What \<open>malloc\<close> returns has no
  defined contents; the model fills the two buffers with zero bytes.
\<close>

definition main_alloc ::
  "extern \<Rightarrow> cli \<Rightarrow> int \<Rightarrow> handle option \<Rightarrow> plan \<Rightarrow> world \<Rightarrow> (error + int) \<times> world" where
  "main_alloc x c curslot gptfd pl w =
     (case find_largest_partition w pl of
        None \<Rightarrow> (Inr 1, w)
      | Some sz \<Rightarrow>
          if \<not> malloc_ok x then (Inr 1, w)
          else
            (let w1 = w\<lparr>contentbuf := replicate (largest_length pl) 0,
                        slotbuf := replicate sz 0, slotbuf_size := sz,
                        contentbuf_size := largest_length pl\<rparr>
             in if soctype w1 = TEGRA_SOCTYPE_210 then main_run_t210 x c gptfd pl w1
                else main_run_t18x x c curslot gptfd pl w1))"

text \<open>Building the two lists, and for tegra210 the move of the second to the first.\<close>

definition main_plan ::
  "extern \<Rightarrow> cli \<Rightarrow> int \<Rightarrow> handle option \<Rightarrow> world \<Rightarrow> (error + int) \<times> world" where
  "main_plan x c curslot gptfd w =
     (case build_plan x w (opt_initialize c) (opt_suffix c) (bup_entries x) plan_init of
        Inl PlanFault \<Rightarrow> (Inl Fault, w)
      | Inl EPlan \<Rightarrow> (Inr 1, w)
      | Inr pl \<Rightarrow>
          if soctype w = TEGRA_SOCTYPE_210 then
            (if length (redundant_entries pl) + length (nonredundant_entries pl) > MAX_ENTRIES
             then (Inr 1, w)
             else main_alloc x c curslot gptfd
                    (pl\<lparr>redundant_entries := redundant_entries pl @ nonredundant_entries pl,
                        nonredundant_entries := []\<rparr>) w)
          else main_alloc x c curslot gptfd pl w)"

text \<open>
  \<open>main\<close> from the test of \<open>check_only\<close> to the label \<open>reset_and_depart\<close>: the
  partition table, the size of the boot device, the slot metadata and the missing
  entries.
\<close>

definition main_session ::
  "extern \<Rightarrow> cli \<Rightarrow> int \<Rightarrow> handle option \<Rightarrow> world \<Rightarrow> (error + int) \<times> world" where
  "main_session x c curslot gptfd w =
     (if opt_check_only c then
        (if soctype w = TEGRA_SOCTYPE_210 then (Inr 1, w)
         else if gpt_load x \<noteq> 0 then (Inr 0, w)
         else if gpt_layout_config_match x < 0 then (Inr 2, w)
         else (Inr (if gpt_layout_config_match x = 0 then 1 else 0), w))
      else if (if opt_initialize c \<noteq> 0 then gpt_load_from_config x else gpt_load x) \<noteq> 0
      then (Inr 1, w)
      else if opt_initialize c \<noteq> 0 \<and> \<not> opt_dryrun c \<and> soctype w \<noteq> TEGRA_SOCTYPE_210
              \<and> gpt_save x \<noteq> 0
      then (Inr 1, log_event EvGptSave w)
      else
        (let w1 = (if opt_initialize c \<noteq> 0 \<and> \<not> opt_dryrun c \<and> soctype w \<noteq> TEGRA_SOCTYPE_210
                   then log_event EvGptSave w else w)
         in case sys_lseek_end BootDev w1 of
              (e, w2) \<Rightarrow>
                if e = -1 then (Inr 1, w2)
                else
                  (let w3 = snd (sys_lseek BootDev 0 (w2\<lparr>bootdev_size := nat e\<rparr>))
                   in if soctype w3 \<noteq> TEGRA_SOCTYPE_210
                         \<and> \<not> (if opt_initialize c \<noteq> 0 then smd_new x else smd_init x)
                      then (Inr 1, w3)
                      else if soctype w3 \<noteq> TEGRA_SOCTYPE_210 \<and> \<not> opt_slot_specified c
                              \<and> \<not> smd_redundancy_full x \<and> \<not> opt_dryrun c
                              \<and> smd_set_redundancy_level x < 0
                      then (Inr 1, log_event EvSetRedundancy w3)
                      else
                        (let w4 = (if soctype w3 \<noteq> TEGRA_SOCTYPE_210 \<and> \<not> opt_slot_specified c
                                      \<and> \<not> smd_redundancy_full x \<and> \<not> opt_dryrun c
                                   then log_event EvSetRedundancy w3 else w3)
                         in if bup_find_missing_entries x \<noteq> 0 then (Inr 1, w4)
                            else main_plan x c curslot gptfd w4))))"

text \<open>The label \<open>reset_and_depart\<close>, as far as it reaches the devices.\<close>

definition reset_and_depart :: "bool \<Rightarrow> handle option \<Rightarrow> bool \<Rightarrow> world \<Rightarrow> world" where
  "reset_and_depart fd_open gptfd dryrun w =
     (let w1 = (if fd_open \<and> \<not> dryrun then sys_fsync BootDev w else w)
      in case gptfd of None \<Rightarrow> w1 | Some g \<Rightarrow> sys_fsync g w1)"

text \<open>
  \<open>main\<close>. \<open>opts\<close> are the options of the command line and \<open>have_arg\<close> tells whether an
  argument follows them. The boot device is open when \<open>BootDev\<close> exists, the second
  device when \<open>GptDev\<close> exists. \<open>set_bootdev_writeable_status\<close> and the functions that
  release a context are not modelled. The result is \<open>Inr\<close> of the exit status, or
  \<open>Inl Fault\<close>.
\<close>

definition main :: "extern \<Rightarrow> cli_opt list \<Rightarrow> bool \<Rightarrow> world \<Rightarrow> (error + int) \<times> world" where
  "main x opts have_arg w =
     (case parse_options opts cli_init of
        Inl r \<Rightarrow> (Inr r, w)
      | Inr c0 \<Rightarrow>
          if \<not> have_arg \<and> \<not> opt_check_only c0 then (Inr 1, w)
          else if soctype w = TEGRA_SOCTYPE_INVALID \<and> cvm_soctype x = TEGRA_SOCTYPE_INVALID
          then (Inr 1, w\<lparr>soctype := cvm_soctype x\<rparr>)
          else
            (let w1 = (if soctype w = TEGRA_SOCTYPE_INVALID then w\<lparr>soctype := cvm_soctype x\<rparr> else w)
             in case select_slot x c0 (soctype w1) of
                  Inl r \<Rightarrow> (Inr r, w1)
                | Inr (c, curslot) \<Rightarrow>
                    if \<not> bup_init x then (Inr 1, w1)
                    else if length (bup_boot_device x) < 8 then (Inr 1, w1)
                    else if take 8 (bup_boot_device x) \<noteq> ''/dev/mtd''
                            \<and> take 8 (bup_boot_device x) \<noteq> ''/dev/mmc'' then (Inr 1, w1)
                    else
                      (let w2 = (if take 8 (bup_boot_device x) = ''/dev/mtd''
                                 then w1\<lparr>spiboot_platform := True\<rparr> else w1);
                           gptfd = (if spiboot_platform w2 then None else Some GptDev)
                       in if \<not> spiboot_platform w2 \<and> w_dev w2 GptDev = None then (Inr 1, w2)
                          else if w_dev w2 BootDev = None
                          then (Inr 1, reset_and_depart False gptfd (opt_dryrun c) w2)
                          else if \<not> gpt_init x
                          then (Inr 1, reset_and_depart True gptfd (opt_dryrun c) w2)
                          else case main_session x c curslot gptfd w2 of
                                 (Inl e, w3) \<Rightarrow> (Inl e, w3)
                               | (Inr ret, w3) \<Rightarrow>
                                   (Inr ret, reset_and_depart True gptfd (opt_dryrun c) w3))))"

section \<open>Notions for the statements\<close>

text \<open>
  The system calls of one successful call of \<open>write_completely_at\<close>: the seek, for a
  non-zero \<open>erase_size\<close> the zero bytes, the \<open>fsync\<close> and the second seek, and the data.
  A \<open>write\<close> of no bytes is not made.
\<close>

definition wca_log :: "handle \<Rightarrow> byte list \<Rightarrow> nat \<Rightarrow> nat \<Rightarrow> nat \<Rightarrow> event list" where
  "wca_log fd buf bufsiz offset erase_size =
     [EvLseek fd offset]
     @ (if erase_size \<noteq> 0
        then [EvWrite fd offset (replicate erase_size 0), EvFsync fd, EvLseek fd offset] else [])
     @ (if bufsiz \<noteq> 0 then [EvWrite fd offset (take bufsiz buf)] else [])"

text \<open>The calls of a log that change a device or the slot metadata.\<close>

fun is_change :: "event \<Rightarrow> bool" where
  "is_change (EvLseek fd p) = False"
| "is_change (EvFsync fd) = False"
| "is_change ev = True"

definition changes :: "world \<Rightarrow> event list" where
  "changes w = filter is_change (w_log w)"

text \<open>The offsets of the \<open>write\<close> calls on a descriptor.\<close>

fun write_offsets :: "handle \<Rightarrow> event list \<Rightarrow> nat list" where
  "write_offsets fd [] = []"
| "write_offsets fd (EvWrite fd' p bytes # evs) =
     (if fd' = fd then p # write_offsets fd evs else write_offsets fd evs)"
| "write_offsets fd (ev # evs) = write_offsets fd evs"

text \<open>The state of a device after a write of \<open>bytes\<close> at \<open>p\<close>, and the bytes of a
  device from \<open>p\<close> on.\<close>

definition written :: "handle \<Rightarrow> nat \<Rightarrow> byte list \<Rightarrow> world \<Rightarrow> world" where
  "written fd p bytes w =
     (case w_dev w fd of
        None \<Rightarrow> w
      | Some d \<Rightarrow> w\<lparr>w_dev := (w_dev w)(fd := Some (dev_store d p bytes)),
                     w_pos := (w_pos w)(fd := p + length bytes),
                     w_log := w_log w @ [EvWrite fd p bytes]\<rparr>)"

definition dev_bytes :: "device \<Rightarrow> nat \<Rightarrow> nat \<Rightarrow> byte list" where
  "dev_bytes d p n = map (dv_cell d) [p..<p + n]"

text \<open>
  What the system calls of the model leave alone: the global variables of the program
  and the sizes of the devices.
\<close>

definition frame :: "world \<Rightarrow> world \<Rightarrow> bool" where
  "frame w w' \<longleftrightarrow>
     contentbuf w' = contentbuf w \<and> contentbuf_size w' = contentbuf_size w \<and>
     slotbuf w' = slotbuf w \<and> slotbuf_size w' = slotbuf_size w \<and>
     bct_updated w' = bct_updated w \<and> soctype w' = soctype w \<and>
     spiboot_platform w' = spiboot_platform w \<and> bootdev_size w' = bootdev_size w \<and>
     (\<forall>h. map_option dv_size (w_dev w' h) = map_option dv_size (w_dev w h))"

text \<open>The three steps of \<open>update_bct\<close>, each left out when the BCT at its offset is the
  new one already.\<close>

definition bct_step_log ::
  "handle \<Rightarrow> byte list option \<Rightarrow> byte list \<Rightarrow> nat \<Rightarrow> nat \<Rightarrow> nat \<Rightarrow> nat \<Rightarrow> event list" where
  "bct_step_log fd curbct newbct len base erase_size offset =
     (if bct_same curbct newbct offset len = Some True then []
      else wca_log fd newbct len (base + offset) erase_size)"

text \<open>
  What the reading functions leave alone: the devices, the calls that change something,
  the scalar global variables and the sizes of the two buffers.
\<close>

definition reads_only :: "world \<Rightarrow> world \<Rightarrow> bool" where
  "reads_only w w' \<longleftrightarrow>
     w_dev w' = w_dev w \<and> changes w' = changes w \<and>
     contentbuf_size w' = contentbuf_size w \<and> slotbuf_size w' = slotbuf_size w \<and>
     length (contentbuf w') = length (contentbuf w) \<and> length (slotbuf w') = length (slotbuf w) \<and>
     bct_updated w' = bct_updated w \<and> soctype w' = soctype w \<and>
     spiboot_platform w' = spiboot_platform w \<and> bootdev_size w' = bootdev_size w"

text \<open>The state after \<open>read_completely_at\<close> has read \<open>n\<close> bytes at \<open>offset\<close> into \<open>slotbuf\<close>.\<close>

definition after_read :: "handle \<Rightarrow> nat \<Rightarrow> nat \<Rightarrow> world \<Rightarrow> world" where
  "after_read fd offset n w =
     (case w_dev w fd of
        None \<Rightarrow> w
      | Some d \<Rightarrow>
          w\<lparr>w_pos := (w_pos w)(fd := offset + n),
            w_log := w_log w @ [EvLseek fd offset],
            slotbuf := (if n = 0 then slotbuf w else buf_store (slotbuf w) 0 (dev_bytes d offset n))\<rparr>)"

text \<open>The state after the content of an entry at \<open>offset\<close> of the payload was read into
  \<open>contentbuf\<close>: one \<open>bup_read\<close> fills the buffer, or reads up to the end of the payload.\<close>

definition after_content :: "nat \<Rightarrow> nat \<Rightarrow> world \<Rightarrow> world" where
  "after_content offset len w =
     (case w_dev w BupFile of
        None \<Rightarrow> w
      | Some b \<Rightarrow>
          (let k = min (contentbuf_size w) (dv_size b - offset)
           in w\<lparr>w_pos := (w_pos w)(BupFile := (if len = 0 then offset else offset + k)),
                w_log := w_log w @ [EvLseek BupFile offset],
                contentbuf := (if len = 0 then contentbuf w
                               else buf_store (contentbuf w) 0 (dev_bytes b offset k))\<rparr>))"

text \<open>
  The system calls of \<open>update_bct_t210\<close> for the copy \<open>i\<close> of the BCT: the copy at
  \<open>i * block_size\<close> and, for the copy 0 of a platform with two copies in the first
  block, the one behind it. Every copy is erased over the length of the BCT.
\<close>

definition t210_copy_log ::
  "handle \<Rightarrow> byte list \<Rightarrow> nat \<Rightarrow> nat \<Rightarrow> nat \<Rightarrow> nat \<Rightarrow> nat \<Rightarrow> event list" where
  "t210_copy_log fd buf len base block_size bctcopies i =
     wca_log fd buf len (base + i * block_size) len
     @ (if i = 0 \<and> bctcopies = 2 then wca_log fd buf len (base + (0 + len)) len else [])"

text \<open>\<open>bctcount\<close> of \<open>update_bct_t210\<close> for the block size of the platform: the number of
  copies that are used.\<close>

definition t210_bctcount :: "bool \<Rightarrow> gpt_entry \<Rightarrow> nat" where
  "t210_bctcount spi p =
     min 64 ((partsize_of p mod 2 ^ 32) div (if spi then 32768 else 16384))"

text \<open>The block size and the size of a BCT slot that \<open>update_bct\<close> computes.\<close>

definition bct_block_size :: "bool \<Rightarrow> nat" where
  "bct_block_size spi = (if spi then 32768 else 16384)"

definition bct_slot_size :: "bool \<Rightarrow> nat \<Rightarrow> nat" where
  "bct_slot_size spi len =
     (if spi then 2048 else 512) * ((len + ((if spi then 2048 else 512) - 1)) div (if spi then 2048 else 512))"

text \<open>The copies that one call of \<open>update_bct_t210\<close> writes, for the value of \<open>*which\<close>
  at the call and \<open>n\<close> copies in use, and the value of \<open>*which\<close> after the call.\<close>

definition t210_phase :: "int \<Rightarrow> nat \<Rightarrow> nat list" where
  "t210_phase which n =
     (if which < 0 then [n - 1] else if which = 0 then [0] else rev [1..<n - 1])"

definition t210_next :: "int \<Rightarrow> int" where
  "t210_next which = (if which < 0 then 1 else if which = 0 then -1 else 0)"

text \<open>The offsets of the \<open>write\<close> calls for the copy \<open>i\<close>: the zero bytes and the BCT.\<close>

definition t210_copy_offsets :: "nat \<Rightarrow> nat \<Rightarrow> nat \<Rightarrow> nat \<Rightarrow> nat \<Rightarrow> nat list" where
  "t210_copy_offsets len base block copies i =
     [base + i * block, base + i * block]
     @ (if i = 0 \<and> copies = 2 then [base + len, base + len] else [])"

text \<open>
  What no function of the program changes once the buffers are allocated: the sizes of
  the buffers and of the devices, and the global variables of the platform.
\<close>

definition keeps :: "world \<Rightarrow> world \<Rightarrow> bool" where
  "keeps w w' \<longleftrightarrow>
     contentbuf_size w' = contentbuf_size w \<and> slotbuf_size w' = slotbuf_size w \<and>
     length (contentbuf w') = length (contentbuf w) \<and> length (slotbuf w') = length (slotbuf w) \<and>
     soctype w' = soctype w \<and> spiboot_platform w' = spiboot_platform w \<and>
     bootdev_size w' = bootdev_size w \<and>
     (\<forall>h. map_option dv_size (w_dev w' h) = map_option dv_size (w_dev w h))"

section \<open>Concrete devices for the instances\<close>

text \<open>A device of \<open>n\<close> bytes that all have the value \<open>v\<close>.\<close>

definition const_dev :: "nat \<Rightarrow> byte \<Rightarrow> device" where
  "const_dev n v = \<lparr>dv_size = n, dv_cell = (\<lambda>i. v)\<rparr>"

text \<open>
  A system with a boot device and a second boot device of 8 MiB each, filled with zero
  bytes, a payload of 4096 bytes of value 1, and the device node of a partition
  \<open>kernel\<close> of 512 bytes. \<open>contentbuf\<close> holds 1024 bytes of value 1, \<open>slotbuf\<close> and
  \<open>zerobuf\<close> have 65536 bytes.
\<close>

definition test_world :: "soctype_t \<Rightarrow> bool \<Rightarrow> world" where
  "test_world soc spi =
     \<lparr>w_dev = (\<lambda>h. case h of
                  BootDev \<Rightarrow> Some (const_dev 8388608 0)
                | GptDev \<Rightarrow> Some (const_dev 8388608 0)
                | BupFile \<Rightarrow> Some (const_dev 4096 1)
                | Node p \<Rightarrow> (if p = ''/dev/disk/by-partlabel/kernel''
                              then Some (const_dev 512 0) else None)),
      w_pos = (\<lambda>h. 0), w_log = [],
      contentbuf = replicate 1024 1, contentbuf_size = 1024,
      slotbuf = replicate 65536 0, slotbuf_size = 65536,
      bct_updated = False, soctype = soc, spiboot_platform = spi, bootdev_size = 8388608\<rparr>"

text \<open>The same system with a boot device of 8 GiB.\<close>

definition big_world :: "soctype_t \<Rightarrow> bool \<Rightarrow> world" where
  "big_world soc spi = (test_world soc spi)
     \<lparr>w_dev := (w_dev (test_world soc spi))(BootDev := Some (const_dev 8589934592 0))\<rparr>"

text \<open>An entry for the partition \<open>BCT\<close> from the sector \<open>lba0\<close> to the sector \<open>lba1\<close>, with
  a BCT of \<open>len\<close> bytes at the start of the payload.\<close>

definition bct_entry :: "nat \<Rightarrow> nat \<Rightarrow> nat \<Rightarrow> update_entry" where
  "bct_entry lba0 lba1 len =
     \<lparr>partname = ''BCT'', part = Some \<lparr>first_lba = lba0, last_lba = lba1\<rparr>, devname = [],
      bup_offset = 0, length_bytes = len\<rparr>"

text \<open>
  External modules for the instances: every BCT update is valid, the version found in
  a partition or in the payload is its first byte, with a zero CRC, and every call
  succeeds. The platform is a tegra186 booted from slot 0, with an empty payload and an
  empty partition table.
\<close>

definition test_extern :: extern where
  "test_extern =
     \<lparr>bct_update_valid_t18x = (\<lambda>c n. True), bct_update_valid_t19x = (\<lambda>c n. True),
      bct_update_valid_t21x = (\<lambda>c n b p. Some (b, p)),
      ver_extract_info = (\<lambda>bs. (0, \<lparr>bsp_version = unat (hd bs), crc = 0\<rparr>)),
      partition_should_be_present = (\<lambda>n. True),
      cvm_soctype = TEGRA_SOCTYPE_186, smd_get_current_slot = 0, bup_init = True,
      bup_boot_device = ''/dev/mmcblk0boot0'',
      bup_entries = [],
      bup_find_missing_entries = 0, gpt_init = True, gpt_load = 0, gpt_load_from_config = 0,
      gpt_save = 0, gpt_layout_config_match = 0,
      gpt_find_by_name = (\<lambda>n. None),
      access_rw = (\<lambda>p. False), malloc_ok = True, smd_new = True, smd_init = True,
      smd_redundancy_full = True, smd_set_redundancy_level = 0,
      smd_slot_mark_active = (\<lambda>n. 0), smd_update = 0\<rparr>"

text \<open>An entry for the device node of the partition \<open>kernel\<close>, with \<open>len\<close> bytes at the
  start of the payload.\<close>

definition kernel_entry :: "nat \<Rightarrow> update_entry" where
  "kernel_entry len =
     \<lparr>partname = ''kernel'', part = None, devname = ''/dev/disk/by-partlabel/kernel'',
      bup_offset = 0, length_bytes = len\<rparr>"

text \<open>The same system after an update: every device holds the bytes of the payload,
  which all have the value 1.\<close>

definition updated_world :: "soctype_t \<Rightarrow> bool \<Rightarrow> world" where
  "updated_world soc spi = (test_world soc spi)
     \<lparr>w_dev := (\<lambda>h. case h of
                  BootDev \<Rightarrow> Some (const_dev 8388608 1)
                | GptDev \<Rightarrow> Some (const_dev 8388608 1)
                | BupFile \<Rightarrow> Some (const_dev 4096 1)
                | Node p \<Rightarrow> (if p = ''/dev/disk/by-partlabel/kernel''
                              then Some (const_dev 512 1) else None))\<rparr>"

text \<open>An entry for the partition \<open>name\<close> of the boot device, from the sector \<open>lba0\<close> to the
  sector \<open>lba1\<close>, with \<open>len\<close> bytes at the start of the payload.\<close>

definition part_entry :: "string \<Rightarrow> nat \<Rightarrow> nat \<Rightarrow> nat \<Rightarrow> update_entry" where
  "part_entry name lba0 lba1 len =
     \<lparr>partname = name, part = Some \<lparr>first_lba = lba0, last_lba = lba1\<rparr>, devname = [],
      bup_offset = 0, length_bytes = len\<rparr>"

section \<open>Properties of order_entries\<close>

lemma oe_emit_app: "oe_emit orig idx out = out @ oe_one orig idx"
  by (simp add: oe_emit_def oe_one_def)

lemma oe_scan_0: "oe_scan xs 0 = oe_init"
  by (simp add: oe_scan_def)

lemma oe_scan_Suc: "oe_scan xs (Suc k) = oe_step xs (oe_scan xs k) k"
  by (simp add: oe_scan_def)

lemma oe_step_mb1: "oe_mb1 (oe_step xs s k) = (if partname (xs ! k) = ''mb1'' then int k else oe_mb1 s)"
  by (simp add: oe_step_def)

lemma oe_step_mb1_b: "oe_mb1_b (oe_step xs s k) = (if partname (xs ! k) = ''mb1_b'' then int k else oe_mb1_b s)"
  by (simp add: oe_step_def)

lemma oe_step_mb2: "oe_mb2 (oe_step xs s k) = (if partname (xs ! k) = ''mb2'' then int k else oe_mb2 s)"
  by (simp add: oe_step_def)

lemma oe_step_mb2_b: "oe_mb2_b (oe_step xs s k) = (if partname (xs ! k) = ''mb2_b'' then int k else oe_mb2_b s)"
  by (simp add: oe_step_def)

lemma oe_step_bct: "oe_bct (oe_step xs s k) =
    (if partname (xs ! k) = ''BCT'' \<and> oe_bct s = -1 then int k else oe_bct s)"
  by (simp add: oe_step_def)

lemma oe_step_bct1: "oe_bct1 (oe_step xs s k) =
    (if partname (xs ! k) = ''BCT'' \<and> oe_bct s \<noteq> -1 \<and> oe_bct1 s = -1 then int k else oe_bct1 s)"
  by (simp add: oe_step_def)

lemma oe_step_bct2: "oe_bct2 (oe_step xs s k) =
    (if partname (xs ! k) = ''BCT'' \<and> oe_bct s \<noteq> -1 \<and> oe_bct1 s \<noteq> -1 \<and> oe_bct2 s = -1
     then int k else oe_bct2 s)"
  by (simp add: oe_step_def)

lemma oe_step_ordered: "oe_ordered (oe_step xs s k) =
    (if oe_special (xs ! k) then oe_ordered s else oe_ordered s @ [xs ! k])"
  by (simp add: oe_step_def oe_special_def)

lemma oe_scan_ordered:
  "k \<le> length xs \<Longrightarrow> oe_ordered (oe_scan xs k) = filter (\<lambda>e. \<not> oe_special e) (take k xs)"
proof (induction k)
  case 0
  show ?case by (simp add: oe_scan_0 oe_init_def)
next
  case (Suc k)
  then show ?case
    by (simp add: oe_scan_Suc oe_step_ordered take_Suc_conv_app_nth)
qed

lemma len_filter_take:
  assumes "length (filter P xs) \<le> n"
  shows "length (filter P (take k xs)) \<le> n"
proof -
  have "length (filter P (take k xs)) \<le> length (filter P (take k xs @ drop k xs))"
    unfolding filter_append by simp
  with assms show ?thesis by simp
qed

text \<open>An index variable of a name that occurs at most once.\<close>

lemma oe_single:
  assumes one: "length (filter (named n) xs) \<le> 1"
    and step: "\<And>s k. f (oe_step xs s k) = (if partname (xs ! k) = n then int k else f s)"
    and init: "f oe_init = -1"
  shows "k \<le> length xs \<Longrightarrow> filter (named n) (take k xs) = oe_one xs (f (oe_scan xs k))"
proof (induction k)
  case 0
  show ?case by (simp add: oe_scan_0 init oe_one_def)
next
  case (Suc k)
  then have k: "k < length xs" and ih: "filter (named n) (take k xs) = oe_one xs (f (oe_scan xs k))"
    by simp_all
  have le: "length (filter (named n) (take (Suc k) xs)) \<le> 1"
    by (rule len_filter_take [OF one])
  show ?case
  proof (cases "partname (xs ! k) = n")
    case True
    with le k have "filter (named n) (take k xs) = []"
      by (simp add: take_Suc_conv_app_nth named_def)
    with True k show ?thesis
      by (simp add: take_Suc_conv_app_nth named_def oe_scan_Suc step oe_one_def)
  next
    case False
    with k ih show ?thesis
      by (simp add: take_Suc_conv_app_nth named_def oe_scan_Suc step)
  qed
qed

lemma oe_scan_bct:
  assumes three: "length (filter (named ''BCT'') xs) \<le> 3"
  shows "k \<le> length xs \<Longrightarrow>
     filter (named ''BCT'') (take k xs) =
       oe_one xs (oe_bct (oe_scan xs k)) @ oe_one xs (oe_bct1 (oe_scan xs k)) @ oe_one xs (oe_bct2 (oe_scan xs k))
     \<and> -1 \<le> oe_bct (oe_scan xs k) \<and> -1 \<le> oe_bct1 (oe_scan xs k) \<and> -1 \<le> oe_bct2 (oe_scan xs k)
     \<and> (oe_bct (oe_scan xs k) = -1 \<longrightarrow> oe_bct1 (oe_scan xs k) = -1)
     \<and> (oe_bct1 (oe_scan xs k) = -1 \<longrightarrow> oe_bct2 (oe_scan xs k) = -1)"
proof (induction k)
  case 0
  show ?case by (simp add: oe_scan_0 oe_init_def oe_one_def)
next
  case (Suc k)
  then have k: "k < length xs" by simp
  note ih = Suc.IH [OF less_imp_le [OF k]]
  have le: "length (filter (named ''BCT'') (take (Suc k) xs)) \<le> 3"
    by (rule len_filter_take [OF three])
  show ?case
  proof (cases "partname (xs ! k) = ''BCT''")
    case False
    with k ih show ?thesis
      by (simp add: take_Suc_conv_app_nth named_def oe_scan_Suc oe_step_bct oe_step_bct1 oe_step_bct2)
  next
    case True
    from le k True have l2: "length (filter (named ''BCT'') (take k xs)) \<le> 2"
      by (simp add: take_Suc_conv_app_nth named_def)
    define s where "s = oe_scan xs k"
    from ih l2 have c: "oe_bct2 s = -1"
      unfolding s_def [symmetric] by (auto simp: oe_one_def split: if_splits)
    from ih have f: "filter (named ''BCT'') (take k xs) = oe_one xs (oe_bct s) @ oe_one xs (oe_bct1 s) @ oe_one xs (oe_bct2 s)"
      and r: "-1 \<le> oe_bct s" "-1 \<le> oe_bct1 s" "oe_bct s = -1 \<longrightarrow> oe_bct1 s = -1"
      unfolding s_def [symmetric] by simp_all
    show ?thesis
      unfolding oe_scan_Suc s_def [symmetric] take_Suc_conv_app_nth [OF k]
      using True c f r
      by (simp add: named_def oe_step_bct oe_step_bct1 oe_step_bct2 oe_one_def)
  qed
qed


lemma oe_filters_mset:
  "mset (filter (\<lambda>e. \<not> oe_special e) xs @ filter (named ''mb2'') xs @ filter (named ''mb2_b'') xs
      @ filter (named ''BCT'') xs @ filter (named ''mb1'') xs @ filter (named ''mb1_b'') xs) = mset xs"
  by (induction xs) (simp_all add: oe_special_def named_def)

lemma all_before_append:
  assumes "\<forall>x \<in> set B. \<not> P x" and "\<forall>x \<in> set A. \<not> Q x"
  shows "all_before P Q (A @ B)"
  unfolding all_before_def
proof (intro allI impI)
  fix i j
  assume i: "i < length (A @ B)" and j: "j < length (A @ B)"
    and pq: "P ((A @ B) ! i) \<and> Q ((A @ B) ! j)"
  have "i < length A"
  proof (rule ccontr)
    assume "\<not> i < length A"
    with i have "(A @ B) ! i \<in> set B" by (simp add: nth_append)
    with assms(1) pq show False by blast
  qed
  moreover have "\<not> j < length A"
  proof
    assume "j < length A"
    then have "(A @ B) ! j \<in> set A" by (simp add: nth_append)
    with assms(2) pq show False by blast
  qed
  ultimately show "i < j" by simp
qed

lemma order_entries_filters:
  assumes b: "length (filter (named ''BCT'') xs) \<le> 3"
    and m1: "length (filter (named ''mb1'') xs) \<le> 1"
    and m1b: "length (filter (named ''mb1_b'') xs) \<le> 1"
    and m2: "length (filter (named ''mb2'') xs) \<le> 1"
    and m2b: "length (filter (named ''mb2_b'') xs) \<le> 1"
  shows "order_entries xs =
      filter (\<lambda>e. \<not> oe_special e) xs @ filter (named ''mb2'') xs @ filter (named ''mb2_b'') xs
      @ filter (named ''BCT'') xs @ filter (named ''mb1'') xs @ filter (named ''mb1_b'') xs"
proof -
  define s where "s = oe_scan xs (length xs)"
  have o: "oe_ordered s = filter (\<lambda>e. \<not> oe_special e) xs"
    unfolding s_def using oe_scan_ordered [of "length xs" xs] by simp
  have 1: "filter (named ''mb1'') xs = oe_one xs (oe_mb1 s)"
    unfolding s_def using oe_single [OF m1 oe_step_mb1, of "length xs"] by (simp add: oe_init_def)
  have 2: "filter (named ''mb1_b'') xs = oe_one xs (oe_mb1_b s)"
    unfolding s_def using oe_single [OF m1b oe_step_mb1_b, of "length xs"] by (simp add: oe_init_def)
  have 3: "filter (named ''mb2'') xs = oe_one xs (oe_mb2 s)"
    unfolding s_def using oe_single [OF m2 oe_step_mb2, of "length xs"] by (simp add: oe_init_def)
  have 4: "filter (named ''mb2_b'') xs = oe_one xs (oe_mb2_b s)"
    unfolding s_def using oe_single [OF m2b oe_step_mb2_b, of "length xs"] by (simp add: oe_init_def)
  have 5: "filter (named ''BCT'') xs =
       oe_one xs (oe_bct s) @ oe_one xs (oe_bct1 s) @ oe_one xs (oe_bct2 s)"
    unfolding s_def using oe_scan_bct [OF b, of "length xs"] by simp
  have "order_entries xs = oe_ordered s @ oe_one xs (oe_mb2 s) @ oe_one xs (oe_mb2_b s)
      @ (oe_one xs (oe_bct s) @ oe_one xs (oe_bct1 s) @ oe_one xs (oe_bct2 s))
      @ oe_one xs (oe_mb1 s) @ oe_one xs (oe_mb1_b s)"
    by (simp add: order_entries_def Let_def oe_emit_app s_def oe_scan_def)
  then show ?thesis
    unfolding o 1 2 3 4 5 .
qed

text \<open>
  Claim C2. For every entry list with at most three entries named BCT and at most one
  entry each named mb1, mb1_b, mb2 and mb2_b, \<open>order_entries\<close> yields a permutation of
  the list: first the entries with none of these names, in input order, then mb2, mb2_b,
  every BCT, mb1 and mb1_b. So every mb2 and mb2_b stands before every BCT, and every BCT
  before every mb1 and mb1_b.
\<close>

theorem order_entries_layout:
  assumes b: "length (filter (named ''BCT'') xs) \<le> 3"
    and m1: "length (filter (named ''mb1'') xs) \<le> 1"
    and m1b: "length (filter (named ''mb1_b'') xs) \<le> 1"
    and m2: "length (filter (named ''mb2'') xs) \<le> 1"
    and m2b: "length (filter (named ''mb2_b'') xs) \<le> 1"
  shows "order_entries xs =
      filter (\<lambda>e. \<not> oe_special e) xs @ filter (named ''mb2'') xs @ filter (named ''mb2_b'') xs
      @ filter (named ''BCT'') xs @ filter (named ''mb1'') xs @ filter (named ''mb1_b'') xs
    \<and> mset (order_entries xs) = mset xs
    \<and> all_before (named ''mb2'') (named ''BCT'') (order_entries xs)
    \<and> all_before (named ''BCT'') (named ''mb1'') (order_entries xs)
    \<and> all_before (named ''mb2_b'') (named ''BCT'') (order_entries xs)
    \<and> all_before (named ''BCT'') (named ''mb1_b'') (order_entries xs)"
proof -
  let ?A = "filter (\<lambda>e. \<not> oe_special e) xs @ filter (named ''mb2'') xs @ filter (named ''mb2_b'') xs"
  let ?B = "filter (named ''BCT'') xs"
  let ?C = "filter (named ''mb1'') xs @ filter (named ''mb1_b'') xs"
  note eq = order_entries_filters [OF assms]
  have e1: "order_entries xs = ?A @ (?B @ ?C)" using eq by simp
  have e2: "order_entries xs = (?A @ ?B) @ ?C" using eq by simp
  have p: "mset (order_entries xs) = mset xs"
    unfolding eq by (rule oe_filters_mset)
  have a1: "all_before (named ''mb2'') (named ''BCT'') (order_entries xs)"
    unfolding e1 by (rule all_before_append) (auto simp: named_def oe_special_def)
  have a2: "all_before (named ''BCT'') (named ''mb1'') (order_entries xs)"
    unfolding e2 by (rule all_before_append) (auto simp: named_def oe_special_def)
  have a3: "all_before (named ''mb2_b'') (named ''BCT'') (order_entries xs)"
    unfolding e1 by (rule all_before_append) (auto simp: named_def oe_special_def)
  have a4: "all_before (named ''BCT'') (named ''mb1_b'') (order_entries xs)"
    unfolding e2 by (rule all_before_append) (auto simp: named_def oe_special_def)
  from eq p a1 a2 a3 a4 show ?thesis by blast
qed


theorem order_entries_layout_witness:
  "length (filter (named ''BCT'') (map ent_named [''mb1'', ''BCT'', ''kernel_b'', ''mb2_b'', ''mb1_b'', ''mb2'', ''BCT'', ''sce_b''])) \<le> 3
   \<and> map partname (order_entries (map ent_named [''mb1'', ''BCT'', ''kernel_b'', ''mb2_b'', ''mb1_b'', ''mb2'', ''BCT'', ''sce_b'']))
      = [''kernel_b'', ''sce_b'', ''mb2'', ''mb2_b'', ''BCT'', ''BCT'', ''mb1'', ''mb1_b'']
   \<and> all_before (named ''BCT'') (named ''mb1'')
        (order_entries (map ent_named [''mb1'', ''BCT'', ''kernel_b'', ''mb2_b'', ''mb1_b'', ''mb2'', ''BCT'', ''sce_b'']))"
proof -
  let ?xs = "map ent_named [''mb1'', ''BCT'', ''kernel_b'', ''mb2_b'', ''mb1_b'', ''mb2'', ''BCT'', ''sce_b'']"
  have h: "length (filter (named ''BCT'') ?xs) \<le> 3" "length (filter (named ''mb1'') ?xs) \<le> 1"
    "length (filter (named ''mb1_b'') ?xs) \<le> 1" "length (filter (named ''mb2'') ?xs) \<le> 1"
    "length (filter (named ''mb2_b'') ?xs) \<le> 1"
    by (simp_all add: named_def ent_named_def)
  have f: "map partname (filter (\<lambda>e. \<not> oe_special e) ?xs @ filter (named ''mb2'') ?xs @ filter (named ''mb2_b'') ?xs
      @ filter (named ''BCT'') ?xs @ filter (named ''mb1'') ?xs @ filter (named ''mb1_b'') ?xs)
      = [''kernel_b'', ''sce_b'', ''mb2'', ''mb2_b'', ''BCT'', ''BCT'', ''mb1'', ''mb1_b'']"
    by (simp add: named_def ent_named_def oe_special_def)
  note t = order_entries_layout [OF h]
  have e: "order_entries ?xs = filter (\<lambda>e. \<not> oe_special e) ?xs @ filter (named ''mb2'') ?xs @ filter (named ''mb2_b'') ?xs
      @ filter (named ''BCT'') ?xs @ filter (named ''mb1'') ?xs @ filter (named ''mb1_b'') ?xs"
    by (rule t [THEN conjunct1])
  have ab: "all_before (named ''BCT'') (named ''mb1'') (order_entries ?xs)"
    by (rule t [THEN conjunct2, THEN conjunct2, THEN conjunct2, THEN conjunct1])
  have m: "map partname (order_entries ?xs)
      = [''kernel_b'', ''sce_b'', ''mb2'', ''mb2_b'', ''BCT'', ''BCT'', ''mb1'', ''mb1_b'']"
    by (simp only: e f)
  from h(1) m ab show ?thesis by (intro conjI)
qed

section \<open>Properties of order_entries_t210\<close>

lemma find_entry_loop_None: "find_entry_loop xs i n = None \<longleftrightarrow> n \<notin> partname ` set xs"
  by (induction xs arbitrary: i) auto

lemma find_entry_loop_Some:
  "find_entry_loop xs i n = Some k \<longleftrightarrow>
     i \<le> k \<and> k - i < length xs \<and> partname (xs ! (k - i)) = n \<and> (\<forall>j < k - i. partname (xs ! j) \<noteq> n)"
proof (induction xs arbitrary: i)
  case Nil
  show ?case by simp
next
  case (Cons e es)
  show ?case
  proof (cases "partname e = n")
    case True
    have "i = k" if "i \<le> k" and "\<forall>j < k - i. partname ((e # es) ! j) \<noteq> n"
    proof (rule ccontr)
      assume "i \<noteq> k"
      with that(1) have "0 < k - i" by simp
      with that(2) have "partname ((e # es) ! 0) \<noteq> n" by blast
      with True show False by simp
    qed
    with True show ?thesis by auto
  next
    case False
    have "k - i < length (e # es) \<and> i \<le> k \<and> partname ((e # es) ! (k - i)) = n \<and> (\<forall>j < k - i. partname ((e # es) ! j) \<noteq> n)
       \<longleftrightarrow> Suc i \<le> k \<and> k - Suc i < length es \<and> partname (es ! (k - Suc i)) = n \<and> (\<forall>j < k - Suc i. partname (es ! j) \<noteq> n)"
      (is "?L \<longleftrightarrow> ?R")
    proof
      assume l: ?L
      with False have ne: "k - i \<noteq> 0" by (auto intro: ccontr)
      then obtain m where m: "k - i = Suc m" by (cases "k - i") auto
      then have km: "k - Suc i = m" by simp
      from l m have "\<forall>j < m. partname (es ! j) \<noteq> n"
        by (metis Suc_less_eq nth_Cons_Suc)
      with l m km show ?R by auto
    next
      assume r: ?R
      then have "Suc i \<le> k" by blast
      then have m: "k - i = Suc (k - Suc i)" by arith
      have "\<forall>j < k - i. partname ((e # es) ! j) \<noteq> n"
      proof (intro allI impI)
        fix j assume "j < k - i"
        then show "partname ((e # es) ! j) \<noteq> n"
          using r False m by (cases j) auto
      qed
      with r m show ?L by auto
    qed
    with False Cons.IH [of "Suc i"] show ?thesis by auto
  qed
qed

lemma find_entry_by_name_None:
  "find_entry_by_name xs n = None \<longleftrightarrow> n \<notin> partname ` set xs"
  by (simp add: find_entry_by_name_def find_entry_loop_None)

lemma find_entry_by_name_Some:
  "find_entry_by_name xs n = Some k \<longleftrightarrow>
     k < length xs \<and> partname (xs ! k) = n \<and> (\<forall>j < k. partname (xs ! j) \<noteq> n)"
  by (simp add: find_entry_by_name_def find_entry_loop_Some)

lemma oe_t210_template_fatal:
  "t210_fatal orig ns \<Longrightarrow> oe_t210_template orig ns st = None"
proof (induction ns arbitrary: st)
  case Nil
  then show ?case by (simp add: t210_fatal_def)
next
  case (Cons n ns)
  obtain ordered used where st: "st = (ordered, used)" by (cases st)
  show ?case
  proof (cases "find_entry_by_name orig n")
    case None
    show ?thesis
    proof (cases "take 3 n = ''EKS''")
      case True
      with Cons.prems have "t210_fatal orig ns" by (auto simp: t210_fatal_def)
      with Cons.IH None True st show ?thesis by simp
    next
      case False
      with None st show ?thesis by simp
    qed
  next
    case (Some k)
    then have "n \<in> partname ` set orig"
      using find_entry_by_name_None [of orig n] by auto
    with Cons.prems have "t210_fatal orig ns" by (auto simp: t210_fatal_def)
    with Cons.IH Some st show ?thesis by simp
  qed
qed

lemma oe_t210_template_ok:
  "\<not> t210_fatal orig ns \<Longrightarrow> length orig \<le> length used \<Longrightarrow>
   \<exists>used'. oe_t210_template orig ns (ordered, used) = Some (ordered @ t210_found orig ns, used')
     \<and> length used' = length used
     \<and> (\<forall>i < length used. used' ! i = (used ! i \<or> t210_consumed orig ns i))"
proof (induction ns arbitrary: ordered used)
  case Nil
  then show ?case by (simp add: t210_found_def t210_consumed_def)
next
  case (Cons n ns)
  from Cons.prems have nf: "\<not> t210_fatal orig ns" by (auto simp: t210_fatal_def)
  show ?case
  proof (cases "find_entry_by_name orig n")
    case None
    then have absent: "n \<notin> partname ` set orig" by (simp add: find_entry_by_name_None)
    with Cons.prems have eks: "take 3 n = ''EKS''" by (auto simp: t210_fatal_def)
    from Cons.IH [OF nf Cons.prems(2), of ordered] obtain used' where
      u: "oe_t210_template orig ns (ordered, used) = Some (ordered @ t210_found orig ns, used')"
        "length used' = length used"
        "\<forall>i < length used. used' ! i = (used ! i \<or> t210_consumed orig ns i)" by blast
    have c: "t210_consumed orig (n # ns) = t210_consumed orig ns"
      using None by (auto simp: t210_consumed_def fun_eq_iff)
    have f: "t210_found orig (n # ns) = t210_found orig ns"
      using absent by (simp add: t210_found_def)
    from u show ?thesis unfolding c f using None eks by simp
  next
    case (Some k)
    then have present: "n \<in> partname ` set orig" and k: "k < length orig"
      using find_entry_by_name_None [of orig n] find_entry_by_name_Some [of orig n k] by auto
    have len: "length orig \<le> length (used[k := True])" using Cons.prems(2) by simp
    from Cons.IH [OF nf len, of "ordered @ [orig ! k]"] obtain used' where
      u: "oe_t210_template orig ns (ordered @ [orig ! k], used[k := True])
            = Some ((ordered @ [orig ! k]) @ t210_found orig ns, used')"
        "length used' = length (used[k := True])"
        "\<forall>i < length (used[k := True]). used' ! i = ((used[k := True]) ! i \<or> t210_consumed orig ns i)"
      by blast
    have f: "t210_found orig (n # ns) = orig ! k # t210_found orig ns"
      using present Some by (simp add: t210_found_def)
    have c: "\<And>i. t210_consumed orig (n # ns) i = (i = k \<or> t210_consumed orig ns i)"
      using Some by (auto simp: t210_consumed_def)
    have "\<forall>i < length used. used' ! i = (used ! i \<or> t210_consumed orig (n # ns) i)"
    proof (intro allI impI)
      fix i assume i: "i < length used"
      from k Cons.prems(2) have "k < length used" by simp
      with i have "(used[k := True]) ! i = (i = k \<or> used ! i)"
        by (auto simp: nth_list_update)
      with u(3) i c [of i] show "used' ! i = (used ! i \<or> t210_consumed orig (n # ns) i)"
        by auto
    qed
    with u(1,2) f Some show ?thesis by simp
  qed
qed

lemma order_entries_t210_template_aux:
  assumes "length orig \<le> 128"
  shows "(t210_fatal orig (t210_update_list spi) \<longrightarrow> order_entries_t210 spi orig = [])
    \<and> (\<not> t210_fatal orig (t210_update_list spi) \<longrightarrow>
         order_entries_t210 spi orig =
           t210_found orig (t210_update_list spi)
           @ map (\<lambda>i. orig ! i)
               (filter (\<lambda>i. \<not> t210_consumed orig (t210_update_list spi) i) [0..<length orig]))"
proof (intro conjI impI)
  assume "t210_fatal orig (t210_update_list spi)"
  then show "order_entries_t210 spi orig = []"
    by (simp add: order_entries_t210_def t210_update_list_def oe_t210_template_fatal)
next
  assume nf: "\<not> t210_fatal orig (t210_update_list spi)"
  from assms have "length orig \<le> length (replicate 128 False)" by simp
  from oe_t210_template_ok [OF nf this, of "[]"] obtain used' where
    u: "oe_t210_template orig (t210_update_list spi) ([], replicate 128 False)
          = Some (t210_found orig (t210_update_list spi), used')"
      "length used' = 128"
      "\<forall>i < 128. used' ! i = t210_consumed orig (t210_update_list spi) i" by auto
  have "filter (\<lambda>i. \<not> used' ! i) [0..<length orig]
      = filter (\<lambda>i. \<not> t210_consumed orig (t210_update_list spi) i) [0..<length orig]"
    using u(3) assms by (intro filter_cong) auto
  with u(1) assms show "order_entries_t210 spi orig =
           t210_found orig (t210_update_list spi)
           @ map (\<lambda>i. orig ! i)
               (filter (\<lambda>i. \<not> t210_consumed orig (t210_update_list spi) i) [0..<length orig])"
    by (simp add: order_entries_t210_def t210_update_list_def [symmetric])
qed

section \<open>The writing primitives\<close>

lemma sys_write_full:
  assumes "w_dev w fd = Some d" "w_pos w fd + length bytes \<le> dv_size d" "bytes \<noteq> []"
  shows "sys_write fd bytes w = (int (length bytes), written fd (w_pos w fd) bytes w)"
  using assms by (simp add: sys_write_def written_def Let_def min_def)

lemma sys_write_cases:
  assumes "sys_write fd bytes w = (n, w')"
  shows "(n = -1 \<and> w' = w) \<or>
         (\<exists>d. w_dev w fd = Some d \<and> 0 < n
            \<and> nat n = min (length bytes) (dv_size d - w_pos w fd)
            \<and> w' = written fd (w_pos w fd) (take (nat n) bytes) w)"
proof (cases "w_dev w fd")
  case None
  with assms show ?thesis by (simp add: sys_write_def)
next
  case (Some d)
  show ?thesis
  proof (cases "min (length bytes) (dv_size d - w_pos w fd) = 0")
    case True
    with assms Some show ?thesis by (simp add: sys_write_def Let_def)
  next
    case False
    with assms Some show ?thesis
      by (auto simp: sys_write_def Let_def written_def)
  qed
qed

lemma written_dev: "w_dev w fd = Some d \<Longrightarrow>
    w_dev (written fd p bytes w) = (w_dev w)(fd := Some (dev_store d p bytes))"
  by (simp add: written_def)

lemma written_pos: "w_dev w fd = Some d \<Longrightarrow> w_pos (written fd p bytes w) fd = p + length bytes"
  by (simp add: written_def)

lemma write_loop_0: "write_loop fd buf tot 0 w = (Inr tot, w)"
  by (simp add: write_loop.simps)

text \<open>A successful loop has written everything with one call.\<close>

lemma write_loop_Inr:
  assumes "write_loop fd buf tot remain w = (Inr t, w')"
  shows "t = tot + remain \<and>
     (if remain = 0 then w' = w
      else tot + remain \<le> length buf \<and> (\<exists>d. w_dev w fd = Some d \<and> w_pos w fd + remain \<le> dv_size d)
           \<and> w' = written fd (w_pos w fd) (take remain (drop tot buf)) w)"
proof (cases "remain = 0")
  case True
  with assms show ?thesis by (simp add: write_loop.simps)
next
  case False
  from assms False have len: "tot + remain \<le> length buf"
    by (simp add: write_loop.simps [of fd buf tot remain] split: if_splits)
  let ?bytes = "take remain (drop tot buf)"
  have lb: "length ?bytes = remain" using len by simp
  obtain n w1 where sw: "sys_write fd ?bytes w = (n, w1)" by (cases "sys_write fd ?bytes w")
  from assms False len sw have n: "\<not> n \<le> 0"
    and rec: "write_loop fd buf (tot + nat n) (remain - nat n) w1 = (Inr t, w')"
    by (simp_all add: write_loop.simps [of fd buf tot remain] split: if_splits)
  from sys_write_cases [OF sw] n obtain d where d: "w_dev w fd = Some d"
    and nn: "nat n = min remain (dv_size d - w_pos w fd)"
    and w1: "w1 = written fd (w_pos w fd) (take (nat n) ?bytes) w"
    using lb by auto
  have full: "nat n = remain"
  proof (rule ccontr)
    assume ne: "nat n \<noteq> remain"
    with nn have lt: "nat n < remain" and sz: "nat n = dv_size d - w_pos w fd" by (auto simp: min_def split: if_splits)
    from n have npos: "0 < nat n" by simp
    have d1: "w_dev w1 fd = Some (dev_store d (w_pos w fd) (take (nat n) ?bytes))"
      unfolding w1 by (simp add: written_dev [OF d])
    have p1: "w_pos w1 fd = w_pos w fd + nat n"
      unfolding w1 using lt lb by (simp add: written_pos [OF d])
    have "sys_write fd (take (remain - nat n) (drop (tot + nat n) buf)) w1 = (-1, w1)"
      using d1 p1 sz npos by (simp add: sys_write_def Let_def dev_store_def)
    with rec lt len show False
      by (simp add: write_loop.simps [of fd buf "tot + nat n" "remain - nat n"])
  qed
  with rec have "t = tot + remain" "w' = w1" by (simp_all add: write_loop_0)
  moreover from full nn False have "w_pos w fd + remain \<le> dv_size d" by (auto simp: min_def split: if_splits)
  ultimately show ?thesis using False len d w1 full lb by simp
qed

lemma write_loop_ok:
  assumes "w_dev w fd = Some d" "w_pos w fd + remain \<le> dv_size d" "tot + remain \<le> length buf"
    "remain \<noteq> 0"
  shows "write_loop fd buf tot remain w
      = (Inr (tot + remain), written fd (w_pos w fd) (take remain (drop tot buf)) w)"
proof -
  let ?bytes = "take remain (drop tot buf)"
  have lb: "length ?bytes = remain" using assms by simp
  then have ne: "?bytes \<noteq> []" using assms(4) by auto
  have "sys_write fd ?bytes w = (int remain, written fd (w_pos w fd) ?bytes w)"
    using sys_write_full [OF assms(1) _ ne] assms(2) lb by simp
  then show ?thesis
    using assms(3,4) by (simp add: write_loop.simps [of fd buf tot remain] write_loop_0)
qed


lemma frame_refl: "frame w w"
  by (simp add: frame_def)

lemma frame_trans: "frame w w1 \<Longrightarrow> frame w1 w2 \<Longrightarrow> frame w w2"
  by (simp add: frame_def)

lemma frame_written: "frame w (written fd p bytes w)"
  by (cases "w_dev w fd") (simp_all add: frame_def written_def dev_store_def)

lemma frame_fsync: "frame w (sys_fsync fd w)"
  by (simp add: frame_def sys_fsync_def)

lemma sys_lseek_cases:
  assumes "sys_lseek fd offset w = (r, w')"
  shows "(r = -1 \<and> w' = w \<and> w_dev w fd = None) \<or>
     (r = int offset \<and> w_dev w fd \<noteq> None
        \<and> w' = w\<lparr>w_pos := (w_pos w)(fd := offset), w_log := w_log w @ [EvLseek fd offset]\<rparr>)"
  using assms by (auto simp: sys_lseek_def split: option.splits)

lemma frame_lseek: "sys_lseek fd offset w = (r, w') \<Longrightarrow> frame w w'"
  by (auto simp: frame_def dest!: sys_lseek_cases)

lemma frame_sys_write: "sys_write fd bytes w = (n, w') \<Longrightarrow> frame w w'"
  by (auto dest!: sys_write_cases simp: frame_refl frame_written)

lemma frame_write_loop: "write_loop fd buf tot remain w = (r, w') \<Longrightarrow> frame w w'"
proof (induction fd buf tot remain w rule: write_loop.induct)
  case (1 fd buf tot remain w)
  show ?case
  proof (cases "remain = 0 \<or> tot + remain > length buf")
    case True
    with "1.prems" show ?thesis
      by (auto simp: write_loop.simps [of fd buf tot remain] frame_refl split: if_splits)
  next
    case False
    obtain n w1 where sw: "sys_write fd (take remain (drop tot buf)) w = (n, w1)"
      by (cases "sys_write fd (take remain (drop tot buf)) w")
    note f1 = frame_sys_write [OF sw]
    show ?thesis
    proof (cases "n \<le> 0")
      case True
      with "1.prems" False sw f1 show ?thesis
        by (auto simp: write_loop.simps [of fd buf tot remain])
    next
      case n: False
      with "1.prems" False sw
      have "write_loop fd buf (tot + nat n) (remain - nat n) w1 = (r, w')"
        by (auto simp: write_loop.simps [of fd buf tot remain])
      moreover from False have "remain \<noteq> 0" "\<not> length buf < tot + remain" by auto
      ultimately have "frame w1 w'"
        using "1.IH" [OF _ _ sw [symmetric] n] by blast
      with f1 show ?thesis by (rule frame_trans)
    qed
  qed
qed

lemma frame_wca:
  assumes "write_completely_at fd buf bufsiz offset erase_size w = (r, w')"
  shows "frame w w'"
proof -
  obtain r1 w1 where l1: "sys_lseek fd offset w = (r1, w1)" by (cases "sys_lseek fd offset w")
  note f1 = frame_lseek [OF l1]
  show ?thesis
  proof (cases "r1 = -1")
    case True
    with assms l1 f1 show ?thesis by (simp add: write_completely_at_def)
  next
    case ok: False
    show ?thesis
    proof (cases "erase_size = 0")
      case True
      with assms l1 ok have "write_loop fd buf 0 bufsiz w1 = (r, w')"
        by (simp add: write_completely_at_def)
      from frame_write_loop [OF this] f1 show ?thesis by (blast intro: frame_trans)
    next
      case er: False
      obtain r2 w2 where e: "write_loop fd (zerobuf w1) 0 erase_size w1 = (r2, w2)"
        by (cases "write_loop fd (zerobuf w1) 0 erase_size w1")
      note f2 = frame_trans [OF f1 frame_write_loop [OF e]]
      show ?thesis
      proof (cases r2)
        case (Inl er2)
        with assms l1 ok er e f2 show ?thesis by (simp add: write_completely_at_def)
      next
        case (Inr t2)
        obtain r3 w3 where l3: "sys_lseek fd offset (sys_fsync fd w2) = (r3, w3)"
          by (cases "sys_lseek fd offset (sys_fsync fd w2)")
        note f3 = frame_trans [OF frame_trans [OF f2 frame_fsync] frame_lseek [OF l3]]
        show ?thesis
        proof (cases "r3 = -1")
          case True
          with assms l1 ok er e Inr l3 f3 show ?thesis by (simp add: write_completely_at_def)
        next
          case False
          with assms l1 ok er e Inr l3 have "write_loop fd buf 0 bufsiz w3 = (r, w')"
            by (simp add: write_completely_at_def)
          from frame_write_loop [OF this] f3 show ?thesis by (blast intro: frame_trans)
        qed
      qed
    qed
  qed
qed

lemma written_log: "w_dev w fd \<noteq> None \<Longrightarrow> w_log (written fd p bytes w) = w_log w @ [EvWrite fd p bytes]"
  by (auto simp: written_def)

lemma write_loop_Inr_log:
  assumes "write_loop fd buf 0 n w = (Inr t, w')" "w_pos w fd = p"
  shows "t = n \<and> n \<le> length buf \<and> w_log w' = w_log w @ (if n \<noteq> 0 then [EvWrite fd p (take n buf)] else [])
      \<and> (n \<noteq> 0 \<longrightarrow> w_pos w' fd = p + n)"
proof (cases "n = 0")
  case True
  with write_loop_Inr [OF assms(1)] show ?thesis by simp
next
  case False
  with write_loop_Inr [OF assms(1)] obtain d where d: "w_dev w fd = Some d"
    and w': "w' = written fd (w_pos w fd) (take n buf) w" and t: "t = n" and n: "n \<le> length buf" by auto
  from d w' t n assms(2) False show ?thesis
    by (simp add: written_log written_pos)
qed

text \<open>A successful call made exactly the system calls of \<open>wca_log\<close>.\<close>

lemma wca_Inr:
  assumes "write_completely_at fd buf bufsiz offset erase_size w = (Inr t, w')"
  shows "t = bufsiz \<and> w_log w' = w_log w @ wca_log fd buf bufsiz offset erase_size"
proof -
  obtain r1 w1 where l1: "sys_lseek fd offset w = (r1, w1)" by (cases "sys_lseek fd offset w")
  from assms l1 have ok: "r1 \<noteq> -1" by (auto simp: write_completely_at_def)
  with sys_lseek_cases [OF l1] have w1: "w_log w1 = w_log w @ [EvLseek fd offset]"
    and p1: "w_pos w1 fd = offset" and z1: "slotbuf_size w1 = slotbuf_size w" by auto
  show ?thesis
  proof (cases "erase_size = 0")
    case True
    with assms l1 ok have "write_loop fd buf 0 bufsiz w1 = (Inr t, w')"
      by (simp add: write_completely_at_def)
    from write_loop_Inr_log [OF this p1] w1 True show ?thesis
      by (simp add: wca_log_def)
  next
    case er: False
    obtain r2 w2 where e: "write_loop fd (zerobuf w1) 0 erase_size w1 = (r2, w2)"
      by (cases "write_loop fd (zerobuf w1) 0 erase_size w1")
    from assms l1 ok er e obtain t2 where r2: "r2 = Inr t2"
      by (cases r2) (auto simp: write_completely_at_def)
    from write_loop_Inr_log [OF e [unfolded r2] p1] er
    have w2: "w_log w2 = w_log w1 @ [EvWrite fd offset (replicate erase_size 0)]"
      by (simp add: zerobuf_def)
    obtain r3 w3 where l3: "sys_lseek fd offset (sys_fsync fd w2) = (r3, w3)"
      by (cases "sys_lseek fd offset (sys_fsync fd w2)")
    from assms l1 ok er e r2 l3 have ok3: "r3 \<noteq> -1"
      and wl: "write_loop fd buf 0 bufsiz w3 = (Inr t, w')"
      by (auto simp: write_completely_at_def split: if_splits)
    from sys_lseek_cases [OF l3] ok3
    have w3: "w_log w3 = w_log w2 @ [EvFsync fd, EvLseek fd offset]" and p3: "w_pos w3 fd = offset"
      by (auto simp: sys_fsync_def)
    from write_loop_Inr_log [OF wl p3] w1 w2 w3 er show ?thesis
      by (simp add: wca_log_def)
  qed
qed

section \<open>The reading primitives\<close>

lemma reads_only_refl: "reads_only w w"
  by (simp add: reads_only_def)

lemma reads_only_trans: "reads_only w w1 \<Longrightarrow> reads_only w1 w2 \<Longrightarrow> reads_only w w2"
  by (simp add: reads_only_def)

lemma reads_only_lseek: "sys_lseek fd offset w = (r, w') \<Longrightarrow> reads_only w w'"
  by (auto simp: reads_only_def changes_def dest!: sys_lseek_cases)

lemma reads_only_lseek_end: "sys_lseek_end fd w = (r, w') \<Longrightarrow> reads_only w w'"
  by (auto simp: reads_only_def changes_def sys_lseek_end_def split: option.splits)

lemma reads_only_fsync: "reads_only w (sys_fsync fd w)"
  by (simp add: reads_only_def changes_def sys_fsync_def)

lemma sys_read_cases:
  assumes "sys_read fd cnt w = (n, bytes, w')"
  shows "(n = -1 \<and> w' = w \<and> w_dev w fd = None) \<or>
     (\<exists>d. w_dev w fd = Some d \<and> n = int (min cnt (dv_size d - w_pos w fd))
        \<and> bytes = dev_bytes d (w_pos w fd) (nat n)
        \<and> w' = w\<lparr>w_pos := (w_pos w)(fd := w_pos w fd + nat n)\<rparr>)"
  using assms by (auto simp: sys_read_def Let_def dev_bytes_def split: option.splits)

lemma length_dev_bytes [simp]: "length (dev_bytes d p n) = n"
  by (simp add: dev_bytes_def)

lemma length_buf_store: "off + length bytes \<le> length buf \<Longrightarrow> length (buf_store buf off bytes) = length buf"
  by (simp add: buf_store_def)

lemma reads_only_slotbuf:
  "length sb = length (slotbuf w) \<Longrightarrow> reads_only w (w\<lparr>slotbuf := sb\<rparr>)"
  by (simp add: reads_only_def changes_def)

lemma reads_only_contentbuf:
  "length cb = length (contentbuf w) \<Longrightarrow> reads_only w (w\<lparr>contentbuf := cb\<rparr>)"
  by (simp add: reads_only_def changes_def)

lemma reads_only_sys_read: "sys_read fd cnt w = (n, bytes, w') \<Longrightarrow> reads_only w w'"
  by (auto simp: reads_only_def changes_def dest!: sys_read_cases)

lemma sys_read_length: "sys_read fd cnt w = (n, bytes, w') \<Longrightarrow> 0 < n \<Longrightarrow> length bytes = nat n \<and> nat n \<le> cnt"
  by (auto dest!: sys_read_cases)

lemma reads_only_read_loop: "read_loop fd tot remain w = (r, w') \<Longrightarrow> reads_only w w'"
proof (induction fd tot remain w rule: read_loop.induct)
  case (1 fd tot remain w)
  show ?case
  proof (cases "remain = 0 \<or> tot + remain > length (slotbuf w)")
    case True
    with "1.prems" show ?thesis
      by (auto simp: read_loop.simps [of fd tot remain] reads_only_refl split: if_splits)
  next
    case False
    obtain n bytes w1 where sr: "sys_read fd remain w = (n, bytes, w1)"
      by (cases "sys_read fd remain w")
    note f1 = reads_only_sys_read [OF sr]
    show ?thesis
    proof (cases "n \<le> 0")
      case True
      with "1.prems" False sr f1 show ?thesis
        by (auto simp: read_loop.simps [of fd tot remain])
    next
      case n: False
      let ?w2 = "w1\<lparr>slotbuf := buf_store (slotbuf w1) tot bytes\<rparr>"
      from n sys_read_length [OF sr] have lb: "length bytes = nat n" "nat n \<le> remain" by auto
      from f1 have "length (slotbuf w1) = length (slotbuf w)" by (simp add: reads_only_def)
      with False lb have "length (buf_store (slotbuf w1) tot bytes) = length (slotbuf w1)"
        by (intro length_buf_store) auto
      then have f2: "reads_only w1 ?w2" by (rule reads_only_slotbuf)
      from "1.prems" False sr n
      have rec: "read_loop fd (tot + nat n) (remain - nat n) ?w2 = (r, w')"
        by (auto simp: read_loop.simps [of fd tot remain])
      moreover from False have "remain \<noteq> 0" "\<not> length (slotbuf w) < tot + remain" by auto
      ultimately have "reads_only ?w2 w'"
        using "1.IH" [OF _ _ sr [symmetric] refl n] by blast
      with f1 f2 show ?thesis by (blast intro: reads_only_trans)
    qed
  qed
qed

lemma reads_only_read_completely_at:
  assumes "read_completely_at fd bufsiz offset w = (r, w')"
  shows "reads_only w w'"
proof -
  obtain r1 w1 where l1: "sys_lseek fd offset w = (r1, w1)" by (cases "sys_lseek fd offset w")
  note f1 = reads_only_lseek [OF l1]
  show ?thesis
  proof (cases "r1 = -1")
    case True
    with assms l1 f1 show ?thesis by (simp add: read_completely_at_def)
  next
    case False
    with assms l1 have "read_loop fd 0 bufsiz w1 = (r, w')" by (simp add: read_completely_at_def)
    from reads_only_read_loop [OF this] f1 show ?thesis by (blast intro: reads_only_trans)
  qed
qed

lemma reads_only_read_content: "read_content len tot w = (r, w') \<Longrightarrow> reads_only w w'"
proof (induction len tot w rule: read_content.induct)
  case (1 len tot w)
  show ?case
  proof (cases "\<not> tot < len \<or> contentbuf_size w < tot")
    case True
    with "1.prems" show ?thesis
      by (auto simp: read_content.simps [of len tot] reads_only_refl split: if_splits)
  next
    case False
    obtain n bytes w1 where sr: "bup_read (contentbuf_size w - tot) w = (n, bytes, w1)"
      by (cases "bup_read (contentbuf_size w - tot) w")
    then have sr': "sys_read BupFile (contentbuf_size w - tot) w = (n, bytes, w1)"
      by (simp add: bup_read_def)
    note f1 = reads_only_sys_read [OF sr']
    show ?thesis
    proof (cases "n \<le> 0 \<or> tot + nat n > length (contentbuf w1)")
      case True
      with "1.prems" False sr f1 show ?thesis
        by (auto simp: read_content.simps [of len tot] split: if_splits)
    next
      case n: False
      let ?w2 = "w1\<lparr>contentbuf := buf_store (contentbuf w1) tot bytes\<rparr>"
      from n sys_read_length [OF sr'] have lb: "length bytes = nat n" by auto
      with n have "length (buf_store (contentbuf w1) tot bytes) = length (contentbuf w1)"
        by (intro length_buf_store) auto
      then have f2: "reads_only w1 ?w2" by (rule reads_only_contentbuf)
      from "1.prems" False sr n
      have rec: "read_content len (tot + nat n) ?w2 = (r, w')"
        by (auto simp: read_content.simps [of len tot])
      moreover from False n have "\<not> \<not> tot < len" "\<not> contentbuf_size w < tot" "\<not> n \<le> 0"
        "\<not> length (contentbuf w1) < tot + nat n" by auto
      ultimately have "reads_only ?w2 w'"
        using "1.IH" [OF _ _ sr [symmetric] refl] by blast
      with f1 f2 show ?thesis by (blast intro: reads_only_trans)
    qed
  qed
qed

text \<open>Reading a range that lies in the device, and the content of an entry that lies
  in the payload.\<close>

lemma read_loop_ok:
  assumes "w_dev w fd = Some d" "w_pos w fd + n \<le> dv_size d" "n \<le> length (slotbuf w)" "n \<noteq> 0"
  shows "read_loop fd 0 n w
      = (Inr n, w\<lparr>w_pos := (w_pos w)(fd := w_pos w fd + n),
                   slotbuf := buf_store (slotbuf w) 0 (dev_bytes d (w_pos w fd) n)\<rparr>)"
proof -
  have "sys_read fd n w = (int n, dev_bytes d (w_pos w fd) n, w\<lparr>w_pos := (w_pos w)(fd := w_pos w fd + n)\<rparr>)"
    using assms by (simp add: sys_read_def Let_def dev_bytes_def min_def)
  then show ?thesis
    using assms by (simp add: read_loop.simps [of fd 0 n] read_loop.simps [of fd n 0])
qed

lemma read_completely_at_ok:
  assumes "w_dev w fd = Some d" "offset + n \<le> dv_size d" "n \<le> length (slotbuf w)"
  shows "read_completely_at fd n offset w = (Inr n, after_read fd offset n w)"
proof (cases "n = 0")
  case True
  with assms show ?thesis
    by (simp add: read_completely_at_def sys_lseek_def after_read_def read_loop.simps [of fd 0 0])
next
  case False
  let ?w1 = "w\<lparr>w_pos := (w_pos w)(fd := offset), w_log := w_log w @ [EvLseek fd offset]\<rparr>"
  have l: "sys_lseek fd offset w = (int offset, ?w1)" using assms by (simp add: sys_lseek_def)
  have "read_loop fd 0 n ?w1 = (Inr n, ?w1\<lparr>w_pos := (w_pos ?w1)(fd := w_pos ?w1 fd + n),
                   slotbuf := buf_store (slotbuf ?w1) 0 (dev_bytes d (w_pos ?w1 fd) n)\<rparr>)"
    using assms False by (intro read_loop_ok) auto
  with l False assms(1) show ?thesis
    by (simp add: read_completely_at_def after_read_def)
qed

lemma read_content_ok:
  assumes "w_dev w BupFile = Some b" "w_pos w BupFile = offset" "0 < len"
    "len \<le> contentbuf_size w" "offset + len \<le> dv_size b" "contentbuf_size w = length (contentbuf w)"
  shows "read_content len 0 w
      = (Inr (), w\<lparr>w_pos := (w_pos w)(BupFile := offset + min (contentbuf_size w) (dv_size b - offset)),
                   contentbuf := buf_store (contentbuf w) 0
                      (dev_bytes b offset (min (contentbuf_size w) (dv_size b - offset)))\<rparr>)"
proof -
  define k where "k = min (contentbuf_size w) (dv_size b - offset)"
  have k: "len \<le> k" "k \<le> length (contentbuf w)" "0 < k" using assms by (auto simp: k_def)
  define w2 where "w2 = w\<lparr>w_pos := (w_pos w)(BupFile := offset + k),
      contentbuf := buf_store (contentbuf w) 0 (dev_bytes b offset k)\<rparr>"
  have br: "bup_read (contentbuf_size w - 0) w = (int k, dev_bytes b offset k, w\<lparr>w_pos := (w_pos w)(BupFile := offset + k)\<rparr>)"
    using assms by (simp add: bup_read_def sys_read_def Let_def dev_bytes_def k_def)
  have fin: "read_content len k w2 = (Inr (), w2)"
    using k by (simp add: read_content.simps [of len k])
  have "read_content len 0 w = read_content len (0 + nat (int k)) w2"
    using assms(3) k br unfolding w2_def
    by (subst read_content.simps) (simp del: read_content.simps)
  with fin show ?thesis by (simp add: w2_def k_def)
qed

section \<open>write_completely_at\<close>

lemma test_world_simps:
  "w_dev (test_world soc spi) BootDev = Some (const_dev 8388608 0)"
  "w_dev (test_world soc spi) GptDev = Some (const_dev 8388608 0)"
  "w_dev (test_world soc spi) BupFile = Some (const_dev 4096 1)"
  "w_dev (test_world soc spi) (Node p) =
     (if p = ''/dev/disk/by-partlabel/kernel'' then Some (const_dev 512 0) else None)"
  "w_pos (test_world soc spi) h = 0"
  "w_log (test_world soc spi) = []"
  "contentbuf (test_world soc spi) = replicate 1024 1"
  "contentbuf_size (test_world soc spi) = 1024"
  "slotbuf (test_world soc spi) = replicate 65536 0"
  "slotbuf_size (test_world soc spi) = 65536"
  "bct_updated (test_world soc spi) = False"
  "soctype (test_world soc spi) = soc"
  "spiboot_platform (test_world soc spi) = spi"
  "bootdev_size (test_world soc spi) = 8388608"
  by (simp_all add: test_world_def)

lemma const_dev_simps: "dv_size (const_dev n v) = n" "dv_cell (const_dev n v) i = v"
  by (simp_all add: const_dev_def)

text \<open>A call on a range that lies in the device succeeds.\<close>

lemma wca_ok:
  assumes "w_dev w fd = Some d" "offset + bufsiz \<le> dv_size d" "offset + erase_size \<le> dv_size d"
    "bufsiz \<le> length buf" "erase_size \<le> slotbuf_size w"
  shows "fst (write_completely_at fd buf bufsiz offset erase_size w) = Inr bufsiz"
proof -
  let ?w1 = "w\<lparr>w_pos := (w_pos w)(fd := offset), w_log := w_log w @ [EvLseek fd offset]\<rparr>"
  have l1: "sys_lseek fd offset w = (int offset, ?w1)" using assms(1) by (simp add: sys_lseek_def)
  have pay: "fst (write_loop fd buf 0 bufsiz w') = Inr bufsiz"
    if "w_dev w' fd = Some d'" "dv_size d' = dv_size d" "w_pos w' fd = offset" for w' d'
  proof (cases "bufsiz = 0")
    case True
    then show ?thesis by (simp add: write_loop_0)
  next
    case False
    with write_loop_ok [OF that(1), of bufsiz 0 buf] that assms show ?thesis by simp
  qed
  show ?thesis
  proof (cases "erase_size = 0")
    case True
    with l1 pay [of ?w1 d] assms(1) show ?thesis
      by (simp add: write_completely_at_def)
  next
    case False
    let ?w2 = "written fd offset (replicate erase_size 0) ?w1"
    have e: "write_loop fd (zerobuf ?w1) 0 erase_size ?w1 = (Inr erase_size, ?w2)"
      using write_loop_ok [of ?w1 fd d erase_size 0 "zerobuf ?w1"] assms False
      by (simp add: zerobuf_def)
    let ?w3 = "(sys_fsync fd ?w2)\<lparr>w_pos := (w_pos (sys_fsync fd ?w2))(fd := offset),
        w_log := w_log (sys_fsync fd ?w2) @ [EvLseek fd offset]\<rparr>"
    have d2: "w_dev (sys_fsync fd ?w2) fd = Some (dev_store d offset (replicate erase_size 0))"
      using assms(1) by (simp add: sys_fsync_def written_def)
    then have l3: "sys_lseek fd offset (sys_fsync fd ?w2) = (int offset, ?w3)"
      by (simp add: sys_lseek_def)
    have "fst (write_loop fd buf 0 bufsiz ?w3) = Inr bufsiz"
      using d2 by (intro pay [of _ "dev_store d offset (replicate erase_size 0)"])
         (simp_all add: dev_store_def)
    with l1 e l3 False show ?thesis
      by (simp add: write_completely_at_def del: write_loop.simps)
  qed
qed

text \<open>
  Claim C5, as amended. A successful call of \<open>write_completely_at\<close> makes exactly these
  system calls: the seek to the offset; for a non-zero \<open>erase_size\<close> the write of
  \<open>erase_size\<close> zero bytes there, an \<open>fsync\<close> and a second seek to the offset; then the
  write of the data. It makes no \<open>fsync\<close> after the data: the write of the data is its last
  system call.
\<close>

theorem write_completely_at_calls:
  assumes "write_completely_at fd buf bufsiz offset erase_size w = (Inr t, w')"
  shows "t = bufsiz
    \<and> w_log w' = w_log w @ wca_log fd buf bufsiz offset erase_size
    \<and> (bufsiz \<noteq> 0 \<longrightarrow> last (w_log w') = EvWrite fd offset (take bufsiz buf))
    \<and> (erase_size \<noteq> 0 \<longrightarrow>
         take 4 (wca_log fd buf bufsiz offset erase_size)
           = [EvLseek fd offset, EvWrite fd offset (replicate erase_size 0), EvFsync fd,
              EvLseek fd offset])"
  using wca_Inr [OF assms] by (simp add: wca_log_def)

theorem write_completely_at_calls_witness:
  "fst (write_completely_at BootDev [1, 2, 3, 4] 4 512 8 (test_world TEGRA_SOCTYPE_186 False)) = Inr 4
   \<and> w_log (snd (write_completely_at BootDev [1, 2, 3, 4] 4 512 8 (test_world TEGRA_SOCTYPE_186 False)))
     = [EvLseek BootDev 512, EvWrite BootDev 512 [0, 0, 0, 0, 0, 0, 0, 0], EvFsync BootDev,
        EvLseek BootDev 512, EvWrite BootDev 512 [1, 2, 3, 4]]"
proof -
  let ?w = "test_world TEGRA_SOCTYPE_186 False"
  let ?r = "write_completely_at BootDev [1, 2, 3, 4] 4 512 8 ?w"
  have f: "fst ?r = Inr 4"
    by (rule wca_ok [of _ _ "const_dev 8388608 0", where bufsiz = 4, simplified])
       (simp_all add: test_world_simps const_dev_simps)
  then have "?r = (Inr 4, snd ?r)" by (metis prod.collapse)
  from write_completely_at_calls [OF this] f show ?thesis
    by (simp add: wca_log_def test_world_simps numeral_eq_Suc)
qed

text \<open>
  Claim C5, as stated, requires a flush after the data on every successful call. A call
  without pre-erase succeeds with a seek and a write only, and the last system call of a
  successful call with pre-erase is the write of the data.
\<close>

theorem write_completely_at_no_flush_counterexample:
  "fst (write_completely_at BootDev [1, 2, 3, 4] 4 512 0 (test_world TEGRA_SOCTYPE_186 False)) = Inr 4
   \<and> w_log (snd (write_completely_at BootDev [1, 2, 3, 4] 4 512 0 (test_world TEGRA_SOCTYPE_186 False)))
     = [EvLseek BootDev 512, EvWrite BootDev 512 [1, 2, 3, 4]]
   \<and> fst (write_completely_at BootDev [1, 2, 3, 4] 4 512 8 (test_world TEGRA_SOCTYPE_186 False)) = Inr 4
   \<and> last (w_log (snd (write_completely_at BootDev [1, 2, 3, 4] 4 512 8 (test_world TEGRA_SOCTYPE_186 False))))
     = EvWrite BootDev 512 [1, 2, 3, 4]"
proof -
  let ?w = "test_world TEGRA_SOCTYPE_186 False"
  let ?r0 = "write_completely_at BootDev [1, 2, 3, 4] 4 512 0 ?w"
  let ?r8 = "write_completely_at BootDev [1, 2, 3, 4] 4 512 8 ?w"
  have f0: "fst ?r0 = Inr 4"
    by (rule wca_ok [of _ _ "const_dev 8388608 0", where bufsiz = 4, simplified])
       (simp_all add: test_world_simps const_dev_simps)
  have f8: "fst ?r8 = Inr 4"
    by (rule wca_ok [of _ _ "const_dev 8388608 0", where bufsiz = 4, simplified])
       (simp_all add: test_world_simps const_dev_simps)
  from f0 have "?r0 = (Inr 4, snd ?r0)" by (metis prod.collapse)
  from wca_Inr [OF this] have l0: "w_log (snd ?r0) = [EvLseek BootDev 512, EvWrite BootDev 512 [1, 2, 3, 4]]"
    by (simp add: wca_log_def test_world_simps)
  from f8 have "?r8 = (Inr 4, snd ?r8)" by (metis prod.collapse)
  from wca_Inr [OF this] have l8: "last (w_log (snd ?r8)) = EvWrite BootDev 512 [1, 2, 3, 4]"
    by (simp add: wca_log_def test_world_simps)
  from f0 l0 f8 l8 show ?thesis by blast
qed

section \<open>Writing the BCT: update_bct and update_bct_t210\<close>

lemma int_of_uint_small: "n < 2 ^ 31 \<Longrightarrow> int_of_uint n = int n"
  by (simp add: int_of_uint_def)

lemma int_of_uint_block:
  "int_of_uint ((m mod 2 ^ 32) div (if spi then 32768 else 16384))
     = int ((m mod 2 ^ 32) div (if spi then 32768 else 16384))"
proof -
  have "m mod 2 ^ 32 < (2 ^ 32 :: nat)" by simp
  then have "(m mod 2 ^ 32) div (if spi then 32768 else 16384) < (2 ^ 31 :: nat)"
    by (simp add: less_mult_imp_div_less)
  then show ?thesis by (rule int_of_uint_small)
qed

lemma update_bct_loop_Inr:
  assumes "part ent = Some p"
  shows "update_bct_loop fd curbct newbct ent block slot i w = (Inr u, w') \<Longrightarrow>
     w_log w' = w_log w @ concat (map (\<lambda>j. bct_step_log fd curbct newbct (length_bytes ent)
        (first_lba p * 512) slot (bct_offset j slot block)) [i..<3])"
proof (induction "3 - i" arbitrary: i w)
  case 0
  then have "\<not> i < 3" by simp
  with "0.prems" show ?case by simp
next
  case (Suc k)
  then have i: "i < 3" and k: "k = 3 - (i + 1)" by simp_all
  have up: "[i..<3] = i # [i + 1..<3]" using i by (simp add: upt_rec)
  let ?off = "bct_offset i slot block"
  show ?case
  proof (cases "bct_same curbct newbct ?off (length_bytes ent)")
    case None
    with Suc.prems i show ?thesis
      by (simp add: update_bct_loop.simps [of _ _ _ _ _ _ i])
  next
    case (Some b)
    show ?thesis
    proof (cases b)
      case True
      with Suc.prems i Some
      have "update_bct_loop fd curbct newbct ent block slot (i + 1) w = (Inr u, w')"
        by (simp add: update_bct_loop.simps [of _ _ _ _ _ _ i])
      from Suc.hyps(1) [OF k this] Some True show ?thesis
        unfolding up by (simp add: bct_step_log_def)
    next
      case False
      obtain r1 w1 where wc: "write_completely_at fd newbct (length_bytes ent)
          (first_lba p * 512 + ?off) slot w = (r1, w1)"
        by (cases "write_completely_at fd newbct (length_bytes ent) (first_lba p * 512 + ?off) slot w")
      from Suc.prems i Some False assms wc obtain t where r1: "r1 = Inr t"
        and rec: "update_bct_loop fd curbct newbct ent block slot (i + 1) w1 = (Inr u, w')"
        by (cases r1) (simp_all add: update_bct_loop.simps [of _ _ _ _ _ _ i])
      from wca_Inr [OF wc [unfolded r1]]
      have l1: "w_log w1 = w_log w @ wca_log fd newbct (length_bytes ent) (first_lba p * 512 + ?off) slot"
        by simp
      from Suc.hyps(1) [OF k rec] l1 Some False show ?thesis
        unfolding up by (simp add: bct_step_log_def)
    qed
  qed
qed

lemma update_bct_Inr:
  assumes "update_bct x fd curbct newbct ent w = (Inr u, w')" "part ent = Some p"
    and slot: "slot = (if spiboot_platform w then 2048 else 512)
        * ((length_bytes ent + ((if spiboot_platform w then 2048 else 512) - 1))
           div (if spiboot_platform w then 2048 else 512))"
    and block: "block = (if spiboot_platform w then 32768 else 16384)"
  shows "w_log w' = w_log w
      @ bct_step_log fd curbct newbct (length_bytes ent) (first_lba p * 512) slot slot
      @ bct_step_log fd curbct newbct (length_bytes ent) (first_lba p * 512) slot block
      @ bct_step_log fd curbct newbct (length_bytes ent) (first_lba p * 512) slot 0
      @ [EvFsync fd]
    \<and> bct_updated w'"
proof -
  obtain r1 w1 where lp: "update_bct_loop fd curbct newbct ent block slot 0 w = (r1, w1)"
    by (cases "update_bct_loop fd curbct newbct ent block slot 0 w")
  from assms(1) lp obtain u1 where r1: "r1 = Inr u1"
    and w': "w' = (sys_fsync fd w1)\<lparr>bct_updated := True\<rparr>"
    unfolding update_bct_def Let_def slot [symmetric] block [symmetric]
    by (cases r1) (auto split: if_splits simp del: update_bct_loop.simps)
  have u3: "[0..<3] = [0, 1, 2]" by (simp add: upt_rec)
  from update_bct_loop_Inr [OF assms(2) lp [unfolded r1]]
  have "w_log w1 = w_log w
      @ bct_step_log fd curbct newbct (length_bytes ent) (first_lba p * 512) slot slot
      @ bct_step_log fd curbct newbct (length_bytes ent) (first_lba p * 512) slot block
      @ bct_step_log fd curbct newbct (length_bytes ent) (first_lba p * 512) slot 0"
    unfolding u3 by (simp add: bct_offset_def)
  with w' show ?thesis by (simp add: sys_fsync_def)
qed

lemma t210_offset:
  assumes "i * block < 2 ^ 32"
  shows "nat ((int i * int block) mod 2 ^ 32) = i * block"
proof -
  have "int i * int block = int (i * block)" by simp
  moreover have "int (i * block) mod 2 ^ 32 = int (i * block)"
    using assms by (simp add: zmod_int [symmetric] del: of_nat_mult)
  ultimately show ?thesis by (simp del: of_nat_mult)
qed

lemma update_bct_t210_loop_Inr:
  assumes p: "part ent = Some p" and b: "(lo + k) * block < 2 ^ 32"
  shows "update_bct_t210_loop fd None newbct ent block copies (int lo + int k - 1) (int lo) w = (Inr u, w')
    \<Longrightarrow> w_log w' = w_log w @ concat (map (t210_copy_log fd (contentbuf w) (length_bytes ent)
            (first_lba p * 512) block copies) (rev [lo..<lo + k]))
        \<and> frame w w'"
  using b
proof (induction k arbitrary: w)
  case 0
  then show ?case by (simp add: frame_refl)
next
  case (Suc k)
  let ?i = "lo + k"
  have idx: "int lo + int (Suc k) - 1 = int ?i" by simp
  have ge: "int ?i \<ge> int lo" by simp
  have off: "nat ((int ?i * int block) mod 2 ^ 32) = ?i * block"
    using Suc.prems(2) by (intro t210_offset) simp
  have nx: "int ?i - 1 = int lo + int k - 1" by simp
  have same: "bct_same None newbct (?i * block) (length_bytes ent) = Some False"
    by (simp add: bct_same_def)
  have b': "(lo + k) * block < 2 ^ 32" using Suc.prems(2)
    by (meson add_le_cancel_left le_SucI le_eq_less_or_eq le_less_trans mult_le_mono1 order_refl)
  let ?len = "length_bytes ent"
  let ?base = "first_lba p * 512"
  obtain r1 w1 where wc: "write_completely_at fd (contentbuf w) ?len (?base + ?i * block) ?len w = (r1, w1)"
    by (cases "write_completely_at fd (contentbuf w) ?len (?base + ?i * block) ?len w")
  note step = Suc.prems(1) [unfolded idx, unfolded update_bct_t210_loop.simps [of _ _ _ _ _ _ "int ?i"],
      unfolded off same]
  from step ge p wc obtain t1 where r1: "r1 = Inr t1"
    by (cases r1) (simp_all del: update_bct_t210_loop.simps)
  note l1 = wca_Inr [OF wc [unfolded r1], THEN conjunct2]
  note f1 = frame_wca [OF wc]
  then have cb1: "contentbuf w1 = contentbuf w" by (simp add: frame_def)
  have up: "rev [lo..<lo + Suc k] = ?i # rev [lo..<lo + k]" by simp
  show ?case
  proof (cases "?i = 0 \<and> copies = 2")
    case False
    with step ge p wc r1
    have rec: "update_bct_t210_loop fd None newbct ent block copies (int lo + int k - 1) (int lo) w1 = (Inr u, w')"
      by (auto simp add: nx simp del: update_bct_t210_loop.simps)
    from Suc.IH [OF rec b'] l1 f1 False show ?thesis
      unfolding up cb1 by (auto simp: t210_copy_log_def intro: frame_trans)
  next
    case True
    then have i0: "?i = 0" and c2: "copies = 2" by simp_all
    obtain r2 w2 where wc2: "write_completely_at fd (contentbuf w1) ?len (?base + (?i * block + ?len)) ?len w1 = (r2, w2)"
      by (cases "write_completely_at fd (contentbuf w1) ?len (?base + (?i * block + ?len)) ?len w1")
    from step ge p wc r1 True wc2 obtain t2 where r2: "r2 = Inr t2"
      by (cases r2) (simp_all del: update_bct_t210_loop.simps)
    with step ge p wc r1 True wc2
    have rec: "update_bct_t210_loop fd None newbct ent block copies (int lo + int k - 1) (int lo) w2 = (Inr u, w')"
      by (simp add: nx del: update_bct_t210_loop.simps)
    note l2 = wca_Inr [OF wc2 [unfolded r2], THEN conjunct2]
    note f2 = frame_trans [OF f1 frame_wca [OF wc2]]
    then have cb2: "contentbuf w2 = contentbuf w" by (simp add: frame_def)
    from Suc.IH [OF rec b'] l1 l2 f2 i0 c2 show ?thesis
      unfolding up cb1 cb2 by (auto simp: t210_copy_log_def intro: frame_trans)
  qed
qed

lemma update_bct_t210_loop_empty:
  "bctidx < bctend \<Longrightarrow> update_bct_t210_loop fd cur newbct ent block copies bctidx bctend w = (Inr (), w)"
  by simp

lemma update_bct_t210_Inr:
  assumes call: "update_bct_t210 x fd None newbct ent (Some wh) w = (Inr wh', w')"
    and p: "part ent = Some p" and n: "1 \<le> t210_bctcount (spiboot_platform w) p"
  shows "wh' = t210_next wh
    \<and> w_log w' = w_log w
        @ concat (map (t210_copy_log fd (contentbuf w) (length_bytes ent) (first_lba p * 512)
                   (bct_block_size (spiboot_platform w)) (if spiboot_platform w then 2 else 1))
                 (t210_phase wh (t210_bctcount (spiboot_platform w) p)))
        @ [EvFsync fd]
    \<and> soctype w = TEGRA_SOCTYPE_210
    \<and> length_bytes ent * (if spiboot_platform w then 2 else 1) \<le> bct_block_size (spiboot_platform w)"
proof -
  define spi where "spi = spiboot_platform w"
  define block where "block = bct_block_size spi"
  define copies :: nat where "copies = (if spi then 2 else 1)"
  define cnt where "cnt = t210_bctcount spi p"
  have blk: "block = (if spi then 32768 else 16384)" by (simp add: block_def bct_block_size_def)
  have cnt_int: "min 64 (int_of_uint ((partsize_of p mod 2 ^ 32) div block)) = int cnt"
    unfolding blk int_of_uint_block by (simp add: cnt_def t210_bctcount_def min_def)
  have cnt64: "cnt \<le> 64" by (simp add: cnt_def t210_bctcount_def)
  from n have cnt1: "1 \<le> cnt" by (simp add: cnt_def spi_def)
  have bpos: "block \<noteq> 0" by (simp add: blk)
  obtain bctstart bctend wh2 where rg: "bct_t210_range wh (int cnt) = (bctstart, bctend, wh2)"
    by (cases "bct_t210_range wh (int cnt)")
  obtain r1 w1 where lp: "update_bct_t210_loop fd None newbct ent block copies bctstart bctend w = (r1, w1)"
    by (cases "update_bct_t210_loop fd None newbct ent block copies bctstart bctend w")
  note c = call [unfolded update_bct_t210_def Let_def, folded spi_def, folded blk, folded copies_def]
  from c have soc: "soctype w = TEGRA_SOCTYPE_210" by (auto split: if_splits)
  from c soc have le: "length_bytes ent * copies \<le> block"
    by (auto split: if_splits simp del: update_bct_t210_loop.simps)
  from c soc le p bpos rg lp cnt_int obtain u1 where r1: "r1 = Inr u1" and wh': "wh' = wh2"
    and w': "w' = (sys_fsync fd w1)\<lparr>bct_updated := True\<rparr>"
    by (cases r1) (auto split: if_splits simp del: update_bct_t210_loop.simps)
  have bound: "\<And>j. j \<le> 64 \<Longrightarrow> j * block < 2 ^ 32"
  proof -
    fix j :: nat assume "j \<le> 64"
    then have "j * block \<le> 64 * 32768" by (intro mult_le_mono) (simp_all add: blk)
    then show "j * block < 2 ^ 32" by simp
  qed
  have main: "wh2 = t210_next wh \<and> w_log w1 = w_log w
        @ concat (map (t210_copy_log fd (contentbuf w) (length_bytes ent) (first_lba p * 512) block copies)
                 (t210_phase wh cnt))"
  proof (cases "wh < 0")
    case True
    with rg have s: "bctstart = int (cnt - 1) + int 1 - 1" "bctend = int (cnt - 1)" "wh2 = 1"
      using cnt1 by (auto simp: bct_t210_range_def)
    have "(cnt - 1 + 1) * block < 2 ^ 32" using cnt64 cnt1 by (intro bound) simp
    from update_bct_t210_loop_Inr [OF p this lp [unfolded r1 s]] s True show ?thesis
      by (simp add: t210_phase_def t210_next_def)
  next
    case nn: False
    show ?thesis
    proof (cases "wh = 0")
      case True
      with rg have s: "bctstart = int 0 + int 1 - 1" "bctend = int 0" "wh2 = -1"
        by (auto simp: bct_t210_range_def)
      have "(0 + 1) * block < 2 ^ 32" by (intro bound) simp
      from update_bct_t210_loop_Inr [OF p this lp [unfolded r1 s]] s True show ?thesis
        by (simp add: t210_phase_def t210_next_def)
    next
      case False
      with nn rg have s0: "bctstart = int cnt - 2" "bctend = 1" "wh2 = 0"
        by (auto simp: bct_t210_range_def)
      show ?thesis
      proof (cases "cnt < 2")
        case True
        with s0 have "bctstart < bctend" by simp
        from update_bct_t210_loop_empty [OF this] lp r1 have "w1 = w" by simp
        with s0 True nn False show ?thesis
          by (simp add: t210_phase_def t210_next_def)
      next
        case c2: False
        with s0 have s: "bctstart = int 1 + int (cnt - 2) - 1" "bctend = int 1" by simp_all
        have "(1 + (cnt - 2)) * block < 2 ^ 32" using cnt64 c2 by (intro bound) simp
        from update_bct_t210_loop_Inr [OF p this lp [unfolded r1 s]]
        have l: "w_log w1 = w_log w
          @ concat (map (t210_copy_log fd (contentbuf w) (length_bytes ent) (first_lba p * 512) block copies)
                 (rev [1..<1 + (cnt - 2)]))" by (rule conjunct1)
        have e: "1 + (cnt - 2) = cnt - 1" using c2 by simp
        have ph: "t210_phase wh cnt = rev [1..<cnt - 1]" using nn False by (simp add: t210_phase_def)
        have nx: "t210_next wh = 0" using nn False by (simp add: t210_next_def)
        from l s0(3) show ?thesis unfolding e ph nx by blast
      qed
    qed
  qed
  with w' wh' soc le show ?thesis
    by (simp add: sys_fsync_def spi_def [symmetric] block_def [symmetric] copies_def [symmetric]
        cnt_def [symmetric])
qed

lemma write_offsets_append: "write_offsets fd (xs @ ys) = write_offsets fd xs @ write_offsets fd ys"
  by (induction fd xs rule: write_offsets.induct) simp_all

lemma write_offsets_wca:
  "write_offsets fd (wca_log fd buf len offset len) = (if len \<noteq> 0 then [offset, offset] else [])"
  by (simp add: wca_log_def)

lemma write_offsets_copy:
  "len \<noteq> 0 \<Longrightarrow> write_offsets fd (t210_copy_log fd buf len base block copies i)
     = t210_copy_offsets len base block copies i"
  by (simp add: t210_copy_log_def t210_copy_offsets_def write_offsets_append write_offsets_wca)

lemma write_offsets_copies:
  "len \<noteq> 0 \<Longrightarrow> write_offsets fd (concat (map (t210_copy_log fd buf len base block copies) is))
     = concat (map (t210_copy_offsets len base block copies) is)"
  by (induction "is") (simp_all add: write_offsets_append write_offsets_copy)

lemma t210_phases_set:
  assumes "1 \<le> n"
  shows "set (t210_phase (-1) n @ t210_phase 1 n @ t210_phase 0 n) = {0..<n}"
  using assms by (auto simp: t210_phase_def)

lemma t210_offsets_set:
  "set (concat (map (t210_copy_offsets len base block copies) is))
     = (\<lambda>i. base + i * block) ` set is \<union> (if 0 \<in> set is \<and> copies = 2 then {base + len} else {})"
  by (induction "is") (auto simp: t210_copy_offsets_def)

lemma t210_offsets_card:
  assumes "0 < block" "0 < len" "spi \<Longrightarrow> len < block"
  shows "card ((\<lambda>i. base + i * block) ` {0..<n} \<union> (if spi then {base + len} else {}))
     = n + (if spi then 1 else 0)"
proof -
  have inj: "inj_on (\<lambda>i. base + i * block) {0..<n}"
    using assms(1) by (auto simp: inj_on_def)
  then have c: "card ((\<lambda>i. base + i * block) ` {0..<n}) = n" by (simp add: card_image)
  show ?thesis
  proof (cases spi)
    case True
    have notin: "base + len \<notin> (\<lambda>i. base + i * block) ` {0..<n}"
    proof
      assume "base + len \<in> (\<lambda>i. base + i * block) ` {0..<n}"
      then obtain i where "base + len = base + i * block" by blast
      then have "len = i * block" by simp
      with assms(2) assms(3) [OF True] show False by (cases i) auto
    qed
    with c True show ?thesis by simp
  next
    case False
    with c show ?thesis by simp
  qed
qed

text \<open>Calls on ranges that lie in the device succeed.\<close>

lemma wca_ok_frame:
  assumes "map_option dv_size (w_dev w fd) = Some sz" "offset + bufsiz \<le> sz" "offset + erase_size \<le> sz"
    "bufsiz \<le> length buf" "erase_size \<le> slotbuf_size w"
  shows "\<exists>w'. write_completely_at fd buf bufsiz offset erase_size w = (Inr bufsiz, w') \<and> frame w w'"
proof -
  from assms(1) obtain d where d: "w_dev w fd = Some d" "dv_size d = sz" by auto
  obtain r w' where c: "write_completely_at fd buf bufsiz offset erase_size w = (r, w')"
    by (cases "write_completely_at fd buf bufsiz offset erase_size w")
  from wca_ok [OF d(1), of offset bufsiz erase_size buf] assms d c have "r = Inr bufsiz" by simp
  with c frame_wca [OF c] show ?thesis by simp
qed

lemma frame_size: "frame w w' \<Longrightarrow> map_option dv_size (w_dev w' fd) = map_option dv_size (w_dev w fd)"
  by (simp add: frame_def)

lemma update_bct_loop_ok:
  assumes p: "part ent = Some p" and len: "length_bytes ent \<le> length newbct"
    and fit: "\<And>j. j < 3 \<Longrightarrow> first_lba p * 512 + bct_offset j slot block + max (length_bytes ent) slot \<le> sz"
  shows "map_option dv_size (w_dev w fd) = Some sz \<Longrightarrow> slot \<le> slotbuf_size w \<Longrightarrow>
     \<exists>w'. update_bct_loop fd None newbct ent block slot i w = (Inr (), w') \<and> frame w w'"
proof (induction "3 - i" arbitrary: i w)
  case 0
  then have "\<not> i < 3" by simp
  then show ?case by (simp add: frame_refl)
next
  case (Suc k)
  then have i: "i < 3" and k: "k = 3 - (i + 1)" by simp_all
  from fit [OF i] have f: "first_lba p * 512 + bct_offset i slot block + length_bytes ent \<le> sz"
    "first_lba p * 512 + bct_offset i slot block + slot \<le> sz" by simp_all
  from wca_ok_frame [OF Suc.prems(1) f len Suc.prems(2)] obtain w1 where
    w1: "write_completely_at fd newbct (length_bytes ent) (first_lba p * 512 + bct_offset i slot block) slot w
          = (Inr (length_bytes ent), w1)" and f1: "frame w w1" by blast
  from f1 Suc.prems have a: "map_option dv_size (w_dev w1 fd) = Some sz" "slot \<le> slotbuf_size w1"
    by (simp_all add: frame_def)
  from Suc.hyps(1) [OF k a] obtain w' where
    r: "update_bct_loop fd None newbct ent block slot (i + 1) w1 = (Inr (), w')" and f2: "frame w1 w'"
    by blast
  have "update_bct_loop fd None newbct ent block slot i w = (Inr (), w')"
    using i p w1 r by (simp add: update_bct_loop.simps [of _ _ _ _ _ _ i] bct_same_def)
  with f1 f2 show ?case by (blast intro: frame_trans)
qed

lemma update_bct_ok:
  assumes p: "part ent = Some p" and len: "length_bytes ent \<le> length newbct"
    and soc: "soctype w \<noteq> TEGRA_SOCTYPE_210"
    and dev: "map_option dv_size (w_dev w fd) = Some sz"
    and slot: "bct_slot_size (spiboot_platform w) (length_bytes ent) \<le> slotbuf_size w"
    and fit: "first_lba p * 512 + bct_block_size (spiboot_platform w)
                + bct_slot_size (spiboot_platform w) (length_bytes ent) \<le> sz"
    and two: "2 * bct_slot_size (spiboot_platform w) (length_bytes ent) \<le> bct_block_size (spiboot_platform w)"
  shows "\<exists>w'. update_bct x fd None newbct ent w = (Inr (), w')"
proof -
  let ?slot = "bct_slot_size (spiboot_platform w) (length_bytes ent)"
  let ?block = "bct_block_size (spiboot_platform w)"
  have ls: "length_bytes ent \<le> ?slot"
  proof -
    have "\<And>pg::nat. 0 < pg \<Longrightarrow> length_bytes ent \<le> pg * ((length_bytes ent + (pg - 1)) div pg)"
    proof -
      fix pg :: nat assume pg: "0 < pg"
      have "length_bytes ent + (pg - 1) = pg * ((length_bytes ent + (pg - 1)) div pg) + (length_bytes ent + (pg - 1)) mod pg"
        by simp
      moreover have "(length_bytes ent + (pg - 1)) mod pg \<le> pg - 1" using pg
        by (metis Suc_pred' less_Suc_eq_le mod_less_divisor)
      ultimately show "length_bytes ent \<le> pg * ((length_bytes ent + (pg - 1)) div pg)" by linarith
    qed
    from this [of "if spiboot_platform w then 2048 else 512"] show ?thesis
      by (simp add: bct_slot_size_def)
  qed
  have "\<And>j. j < 3 \<Longrightarrow> first_lba p * 512 + bct_offset j ?slot ?block + max (length_bytes ent) ?slot \<le> sz"
    using fit two ls by (auto simp: bct_offset_def max_def)
  from update_bct_loop_ok [OF p len this dev slot, of 0] obtain w' where
    "update_bct_loop fd None newbct ent ?block ?slot 0 w = (Inr (), w')" by blast
  then show ?thesis
    using soc by (simp add: update_bct_def Let_def bct_slot_size_def bct_block_size_def
        del: update_bct_loop.simps)
qed


lemma update_bct_t210_loop_ok:
  assumes p: "part ent = Some p"
    and fit: "first_lba p * 512 + maxoff + 2 * length_bytes ent \<le> sz"
  shows "map_option dv_size (w_dev w fd) = Some sz \<Longrightarrow> length_bytes ent \<le> slotbuf_size w \<Longrightarrow>
     length_bytes ent \<le> length (contentbuf w) \<Longrightarrow>
     (\<And>j. bctend \<le> j \<Longrightarrow> j \<le> bctidx \<Longrightarrow> nat ((j * int block) mod 2 ^ 32) \<le> maxoff) \<Longrightarrow>
     \<exists>w'. update_bct_t210_loop fd None newbct ent block copies bctidx bctend w = (Inr (), w')
        \<and> frame w w'"
proof (induction "nat (bctidx - bctend + 1)" arbitrary: bctidx w)
  case 0
  then have "bctidx < bctend" by simp
  then show ?case by (simp add: frame_refl)
next
  case (Suc k)
  then have ge: "bctidx \<ge> bctend" and k: "k = nat ((bctidx - 1) - bctend + 1)" by simp_all
  let ?off = "nat ((bctidx * int block) mod 2 ^ 32)"
  let ?len = "length_bytes ent"
  from Suc.prems(4) [OF ge] have mo: "?off \<le> maxoff" by simp
  with fit have f: "first_lba p * 512 + ?off + ?len \<le> sz" by simp
  from wca_ok_frame [OF Suc.prems(1) f f Suc.prems(3) Suc.prems(2)] obtain w1 where
    w1: "write_completely_at fd (contentbuf w) ?len (first_lba p * 512 + ?off) ?len w = (Inr ?len, w1)"
    and f1: "frame w w1" by blast
  from f1 Suc.prems have a: "map_option dv_size (w_dev w1 fd) = Some sz" "?len \<le> slotbuf_size w1"
    "?len \<le> length (contentbuf w1)" by (simp_all add: frame_def)
  from mo fit have f': "first_lba p * 512 + (?off + ?len) + ?len \<le> sz" by simp
  from wca_ok_frame [OF a(1) f' f' a(3) a(2)] obtain w2 where
    w2: "write_completely_at fd (contentbuf w1) ?len (first_lba p * 512 + (?off + ?len)) ?len w1 = (Inr ?len, w2)"
    and f2: "frame w1 w2" by blast
  from f2 a have b: "map_option dv_size (w_dev w2 fd) = Some sz" "?len \<le> slotbuf_size w2"
    "?len \<le> length (contentbuf w2)" by (simp_all add: frame_def)
  have nxt: "\<And>j. bctend \<le> j \<Longrightarrow> j \<le> bctidx - 1 \<Longrightarrow> nat ((j * int block) mod 2 ^ 32) \<le> maxoff"
    using Suc.prems(4) by simp
  show ?case
  proof (cases "bctidx = 0 \<and> copies = 2")
    case True
    from Suc.hyps(1) [OF k b nxt] obtain w' where
      r: "update_bct_t210_loop fd None newbct ent block copies (bctidx - 1) bctend w2 = (Inr (), w')"
      and f3: "frame w2 w'" by blast
    have "update_bct_t210_loop fd None newbct ent block copies bctidx bctend w = (Inr (), w')"
      using ge p w1 w2 r True
      by (subst update_bct_t210_loop.simps) (simp add: bct_same_def del: update_bct_t210_loop.simps)
    with f1 f2 f3 show ?thesis by (blast intro: frame_trans)
  next
    case False
    from Suc.hyps(1) [OF k a nxt] obtain w' where
      r: "update_bct_t210_loop fd None newbct ent block copies (bctidx - 1) bctend w1 = (Inr (), w')"
      and f3: "frame w1 w'" by blast
    have "update_bct_t210_loop fd None newbct ent block copies bctidx bctend w = (Inr (), w')"
      using ge p w1 r False
      by (subst update_bct_t210_loop.simps) (auto simp add: bct_same_def simp del: update_bct_t210_loop.simps)
    with f1 f3 show ?thesis by (blast intro: frame_trans)
  qed
qed

lemma update_bct_t210_ok_gen:
  assumes soc: "soctype w = TEGRA_SOCTYPE_210" and p: "part ent = Some p"
    and pg: "length_bytes ent mod (if spiboot_platform w then 2048 else 512) = 0"
    and le: "length_bytes ent * (if spiboot_platform w then 2 else 1) \<le> bct_block_size (spiboot_platform w)"
    and cb: "length_bytes ent \<le> length (contentbuf w)" and sb: "length_bytes ent \<le> slotbuf_size w"
    and dev: "map_option dv_size (w_dev w fd) = Some sz"
    and rg: "bct_t210_range wh (int (t210_bctcount (spiboot_platform w) p)) = (s, e, wh')"
    and mo: "\<And>j. e \<le> j \<Longrightarrow> j \<le> s \<Longrightarrow>
              nat ((j * int (bct_block_size (spiboot_platform w))) mod 2 ^ 32) \<le> maxoff"
    and fit: "first_lba p * 512 + maxoff + 2 * length_bytes ent \<le> sz"
  shows "\<exists>w'. update_bct_t210 x fd None newbct ent (Some wh) w = (Inr wh', w')
      \<and> frame w (w'\<lparr>bct_updated := bct_updated w\<rparr>)"
proof -
  define spi where "spi = spiboot_platform w"
  define block where "block = bct_block_size spi"
  define copies :: nat where "copies = (if spi then 2 else 1)"
  define cnt where "cnt = t210_bctcount spi p"
  have blk: "block = (if spi then 32768 else 16384)" by (simp add: block_def bct_block_size_def)
  have cnt_int: "min 64 (int_of_uint ((partsize_of p mod 2 ^ 32) div block)) = int cnt"
    unfolding blk int_of_uint_block by (simp add: cnt_def t210_bctcount_def min_def)
  have bpos: "block \<noteq> 0" by (simp add: blk)
  from update_bct_t210_loop_ok [OF p fit dev sb cb, of e s block newbct copies] mo
  obtain w1 where lp: "update_bct_t210_loop fd None newbct ent block copies s e w = (Inr (), w1)"
    and f1: "frame w w1" unfolding block_def spi_def by blast
  have "update_bct_t210 x fd None newbct ent (Some wh) w = (Inr wh', (sys_fsync fd w1)\<lparr>bct_updated := True\<rparr>)"
    unfolding update_bct_t210_def Let_def
    unfolding spi_def [symmetric] blk [symmetric] copies_def [symmetric]
    using soc p pg le bpos rg lp cnt_int
    by (simp add: spi_def [symmetric] block_def [symmetric] copies_def [symmetric] cnt_def [symmetric]
        del: update_bct_t210_loop.simps)
  moreover have "frame w (((sys_fsync fd w1)\<lparr>bct_updated := True\<rparr>)\<lparr>bct_updated := bct_updated w\<rparr>)"
    using f1 by (simp add: frame_def sys_fsync_def)
  ultimately show ?thesis by blast
qed

text \<open>With at least one copy in use, a device that holds 64 blocks from the start of the
  partition on is large enough.\<close>

lemma update_bct_t210_ok:
  assumes soc: "soctype w = TEGRA_SOCTYPE_210" and p: "part ent = Some p"
    and pg: "length_bytes ent mod (if spiboot_platform w then 2048 else 512) = 0"
    and le: "length_bytes ent * (if spiboot_platform w then 2 else 1) \<le> bct_block_size (spiboot_platform w)"
    and cb: "length_bytes ent \<le> length (contentbuf w)" and sb: "length_bytes ent \<le> slotbuf_size w"
    and dev: "map_option dv_size (w_dev w fd) = Some sz"
    and n: "1 \<le> t210_bctcount (spiboot_platform w) p"
    and fit: "first_lba p * 512 + 63 * bct_block_size (spiboot_platform w) + 2 * length_bytes ent \<le> sz"
  shows "\<exists>w'. update_bct_t210 x fd None newbct ent (Some wh) w = (Inr (t210_next wh), w')
      \<and> frame w (w'\<lparr>bct_updated := bct_updated w\<rparr>)"
proof -
  let ?block = "bct_block_size (spiboot_platform w)"
  let ?cnt = "t210_bctcount (spiboot_platform w) p"
  obtain s e wh' where rg: "bct_t210_range wh (int ?cnt) = (s, e, wh')"
    by (cases "bct_t210_range wh (int ?cnt)")
  have c64: "?cnt \<le> 64" by (simp add: t210_bctcount_def)
  from rg n c64 have wh': "wh' = t210_next wh" and e0: "0 \<le> e" and s63: "s \<le> 63"
    by (auto simp: bct_t210_range_def t210_next_def split: if_splits)
  have b32: "?block \<le> 32768" by (simp add: bct_block_size_def)
  have mo: "nat ((j * int ?block) mod 2 ^ 32) \<le> 63 * ?block" if "e \<le> j" "j \<le> s" for j
  proof -
    from that e0 s63 have j: "0 \<le> j" "j \<le> 63" by simp_all
    then have "j * int ?block \<le> 63 * int ?block" by (intro mult_right_mono) simp_all
    moreover have "0 \<le> j * int ?block" using j by simp
    moreover have "63 * int ?block < 2 ^ 32" using b32 by simp
    ultimately have "(j * int ?block) mod 2 ^ 32 = j * int ?block" by simp
    with \<open>j * int ?block \<le> 63 * int ?block\<close> show ?thesis by simp
  qed
  from update_bct_t210_ok_gen [OF soc p pg le cb sb dev rg mo fit] wh' show ?thesis by simp
qed

lemma big_world_simps:
  "w_dev (big_world soc spi) BootDev = Some (const_dev 8589934592 0)"
  "w_log (big_world soc spi) = []"
  "contentbuf (big_world soc spi) = replicate 1024 1"
  "slotbuf_size (big_world soc spi) = 65536"
  "soctype (big_world soc spi) = soc"
  "spiboot_platform (big_world soc spi) = spi"
  by (simp_all add: big_world_def test_world_simps)

lemma bct_entry_simps:
  "part (bct_entry a b len) = Some \<lparr>first_lba = a, last_lba = b\<rparr>"
  "length_bytes (bct_entry a b len) = len"
  "partname (bct_entry a b len) = ''BCT''"
  "bup_offset (bct_entry a b len) = 0"
  by (simp_all add: bct_entry_def)

text \<open>
  The writes of the BCT where the partition holds the copies. On tegra186 and tegra194,
  a successful \<open>update_bct\<close> makes exactly three write sequences, in this order: at the
  slot size, at the block size and at 0 from the start of the BCT partition, each erased
  over the slot size, each left out only when the current contents at its offset are the
  new BCT (or made always, when no current contents are passed); then it calls \<open>fsync\<close>.
  On tegra210, where \<open>main\<close> always initializes and so passes no current BCT
  (\<open>curbct = NULL\<close>): across three successful calls of \<open>update_bct_t210\<close> for one entry
  with a non-empty BCT, with \<open>which = -1\<close> at first, on a partition that holds at least one
  block, \<open>which\<close> becomes 1, then 0, then \<open>-1\<close>; the first call writes the last copy in
  use, the second the copies before it down to copy 1, the third copy 0; the offsets
  written are exactly \<open>i * block_size\<close> for every copy \<open>i\<close> in use and, on SPI flash, the
  second copy of block 0 at the length of the BCT, which are as many distinct offsets as
  copies in use, plus one on SPI flash.
\<close>

lemma bct_write_multiplicity:
  assumes p: "part ent = Some pt"
  shows
    "(\<forall>x fd curbct newbct w u w'.
        update_bct x fd curbct newbct ent w = (Inr u, w') \<longrightarrow>
          w_log w' = w_log w
            @ bct_step_log fd curbct newbct (length_bytes ent) (first_lba pt * 512)
                (bct_slot_size (spiboot_platform w) (length_bytes ent))
                (bct_slot_size (spiboot_platform w) (length_bytes ent))
            @ bct_step_log fd curbct newbct (length_bytes ent) (first_lba pt * 512)
                (bct_slot_size (spiboot_platform w) (length_bytes ent))
                (bct_block_size (spiboot_platform w))
            @ bct_step_log fd curbct newbct (length_bytes ent) (first_lba pt * 512)
                (bct_slot_size (spiboot_platform w) (length_bytes ent)) 0
            @ [EvFsync fd])
     \<and> (\<forall>x fd nb1 nb2 nb3 wa wb wc wh1 wh2 wh3 wa' wb' wc' spi.
          update_bct_t210 x fd None nb1 ent (Some (-1)) wa = (Inr wh1, wa') \<and>
          update_bct_t210 x fd None nb2 ent (Some wh1) wb = (Inr wh2, wb') \<and>
          update_bct_t210 x fd None nb3 ent (Some wh2) wc = (Inr wh3, wc') \<and>
          spiboot_platform wa = spi \<and> spiboot_platform wb = spi \<and> spiboot_platform wc = spi \<and>
          1 \<le> t210_bctcount spi pt \<and> 0 < length_bytes ent \<longrightarrow>
          wh1 = 1 \<and> wh2 = 0 \<and> wh3 = -1 \<and>
          (\<exists>ea eb ec.
             w_log wa' = w_log wa @ ea @ [EvFsync fd] \<and>
             w_log wb' = w_log wb @ eb @ [EvFsync fd] \<and>
             w_log wc' = w_log wc @ ec @ [EvFsync fd] \<and>
             ea = t210_copy_log fd (contentbuf wa) (length_bytes ent) (first_lba pt * 512)
                    (bct_block_size spi) (if spi then 2 else 1) (t210_bctcount spi pt - 1) \<and>
             eb = concat (map (t210_copy_log fd (contentbuf wb) (length_bytes ent) (first_lba pt * 512)
                    (bct_block_size spi) (if spi then 2 else 1)) (rev [1..<t210_bctcount spi pt - 1])) \<and>
             ec = t210_copy_log fd (contentbuf wc) (length_bytes ent) (first_lba pt * 512)
                    (bct_block_size spi) (if spi then 2 else 1) 0 \<and>
             set (write_offsets fd (ea @ eb @ ec))
               = (\<lambda>i. first_lba pt * 512 + i * bct_block_size spi) ` {0..<t210_bctcount spi pt}
                 \<union> (if spi then {first_lba pt * 512 + length_bytes ent} else {}) \<and>
             card (set (write_offsets fd (ea @ eb @ ec)))
               = t210_bctcount spi pt + (if spi then 1 else 0)))"
proof (intro conjI allI impI)
  fix x fd curbct newbct w u w'
  assume "update_bct x fd curbct newbct ent w = (Inr u, w')"
  from update_bct_Inr [OF this p refl refl, THEN conjunct1]
  show "w_log w' = w_log w
            @ bct_step_log fd curbct newbct (length_bytes ent) (first_lba pt * 512)
                (bct_slot_size (spiboot_platform w) (length_bytes ent))
                (bct_slot_size (spiboot_platform w) (length_bytes ent))
            @ bct_step_log fd curbct newbct (length_bytes ent) (first_lba pt * 512)
                (bct_slot_size (spiboot_platform w) (length_bytes ent))
                (bct_block_size (spiboot_platform w))
            @ bct_step_log fd curbct newbct (length_bytes ent) (first_lba pt * 512)
                (bct_slot_size (spiboot_platform w) (length_bytes ent)) 0
            @ [EvFsync fd]"
    by (simp add: bct_slot_size_def bct_block_size_def)
next
  fix x fd nb1 nb2 nb3 wa wb wc wh1 wh2 wh3 wa' wb' wc' spi
  assume h: "update_bct_t210 x fd None nb1 ent (Some (-1)) wa = (Inr wh1, wa') \<and>
          update_bct_t210 x fd None nb2 ent (Some wh1) wb = (Inr wh2, wb') \<and>
          update_bct_t210 x fd None nb3 ent (Some wh2) wc = (Inr wh3, wc') \<and>
          spiboot_platform wa = spi \<and> spiboot_platform wb = spi \<and> spiboot_platform wc = spi \<and>
          1 \<le> t210_bctcount spi pt \<and> 0 < length_bytes ent"
  let ?n = "t210_bctcount spi pt"
  let ?len = "length_bytes ent"
  let ?base = "first_lba pt * 512"
  let ?block = "bct_block_size spi"
  let ?copies = "if spi then 2 else 1 :: nat"
  from h have n: "1 \<le> ?n" and len: "0 < ?len" and sa: "spiboot_platform wa = spi"
    and sb: "spiboot_platform wb = spi" and sc: "spiboot_platform wc = spi" by simp_all
  from h have ca: "update_bct_t210 x fd None nb1 ent (Some (-1)) wa = (Inr wh1, wa')" by simp
  note ra = update_bct_t210_Inr [OF ca p, unfolded sa, OF n]
  then have wh1: "wh1 = 1" by (simp add: t210_next_def)
  from h wh1 have cb: "update_bct_t210 x fd None nb2 ent (Some 1) wb = (Inr wh2, wb')" by simp
  note rb = update_bct_t210_Inr [OF cb p, unfolded sb, OF n]
  then have wh2: "wh2 = 0" by (simp add: t210_next_def)
  from h wh2 have cc: "update_bct_t210 x fd None nb3 ent (Some 0) wc = (Inr wh3, wc')" by simp
  note rc = update_bct_t210_Inr [OF cc p, unfolded sc, OF n]
  then have wh3: "wh3 = -1" by (simp add: t210_next_def)
  show "wh1 = 1" by (rule wh1)
  show "wh2 = 0" by (rule wh2)
  show "wh3 = -1" by (rule wh3)
  define ea where "ea = t210_copy_log fd (contentbuf wa) ?len ?base ?block ?copies (?n - 1)"
  define eb where "eb = concat (map (t210_copy_log fd (contentbuf wb) ?len ?base ?block ?copies) (rev [1..<?n - 1]))"
  define ec where "ec = t210_copy_log fd (contentbuf wc) ?len ?base ?block ?copies 0"
  have la: "w_log wa' = w_log wa @ ea @ [EvFsync fd]"
    using ra by (simp add: t210_phase_def ea_def)
  have lb: "w_log wb' = w_log wb @ eb @ [EvFsync fd]"
    using rb by (simp add: t210_phase_def eb_def)
  have lc: "w_log wc' = w_log wc @ ec @ [EvFsync fd]"
    using rc by (simp add: t210_phase_def ec_def)
  have le: "?len * ?copies \<le> ?block" using ra by simp
  have ne: "?len \<noteq> 0" using len by simp
  have wo: "write_offsets fd (ea @ eb @ ec)
      = concat (map (t210_copy_offsets ?len ?base ?block ?copies) ([?n - 1] @ rev [1..<?n - 1] @ [0]))"
    unfolding ea_def eb_def ec_def
    by (simp add: write_offsets_append write_offsets_copy [OF ne] write_offsets_copies [OF ne])
  have idx: "set ([?n - 1] @ rev [1..<?n - 1] @ [0]) = {0..<?n}"
    using n by auto
  have st: "set (write_offsets fd (ea @ eb @ ec))
      = (\<lambda>i. ?base + i * ?block) ` {0..<?n} \<union> (if spi then {?base + ?len} else {})"
    unfolding wo t210_offsets_set idx using n by auto
  have lt: "?len < ?block" if spi
    using le len that by simp
  have bp: "0 < ?block" by (simp add: bct_block_size_def)
  have cd: "card (set (write_offsets fd (ea @ eb @ ec))) = ?n + (if spi then 1 else 0)"
    unfolding st by (rule t210_offsets_card [OF bp len lt])
  from la lb lc st cd
  show "\<exists>ea eb ec.
             w_log wa' = w_log wa @ ea @ [EvFsync fd] \<and>
             w_log wb' = w_log wb @ eb @ [EvFsync fd] \<and>
             w_log wc' = w_log wc @ ec @ [EvFsync fd] \<and>
             ea = t210_copy_log fd (contentbuf wa) (length_bytes ent) (first_lba pt * 512)
                    (bct_block_size spi) (if spi then 2 else 1) (t210_bctcount spi pt - 1) \<and>
             eb = concat (map (t210_copy_log fd (contentbuf wb) (length_bytes ent) (first_lba pt * 512)
                    (bct_block_size spi) (if spi then 2 else 1)) (rev [1..<t210_bctcount spi pt - 1])) \<and>
             ec = t210_copy_log fd (contentbuf wc) (length_bytes ent) (first_lba pt * 512)
                    (bct_block_size spi) (if spi then 2 else 1) 0 \<and>
             set (write_offsets fd (ea @ eb @ ec))
               = (\<lambda>i. first_lba pt * 512 + i * bct_block_size spi) ` {0..<t210_bctcount spi pt}
                 \<union> (if spi then {first_lba pt * 512 + length_bytes ent} else {}) \<and>
             card (set (write_offsets fd (ea @ eb @ ec)))
               = t210_bctcount spi pt + (if spi then 1 else 0)"
    unfolding ea_def eb_def ec_def by blast
qed


text \<open>The loop that a successful call ran, for any number of copies.\<close>

lemma update_bct_t210_Inr_loop:
  assumes call: "update_bct_t210 x fd None newbct ent (Some wh) w = (Inr wh', w')"
    and p: "part ent = Some p"
  shows "\<exists>s e w1. bct_t210_range wh (int (t210_bctcount (spiboot_platform w) p)) = (s, e, wh')
      \<and> update_bct_t210_loop fd None newbct ent (bct_block_size (spiboot_platform w))
           (if spiboot_platform w then 2 else 1) s e w = (Inr (), w1)
      \<and> w_log w' = w_log w1 @ [EvFsync fd]"
proof -
  define spi where "spi = spiboot_platform w"
  define block where "block = bct_block_size spi"
  define copies :: nat where "copies = (if spi then 2 else 1)"
  define cnt where "cnt = t210_bctcount spi p"
  have blk: "block = (if spi then 32768 else 16384)" by (simp add: block_def bct_block_size_def)
  have cnt_int: "min 64 (int_of_uint ((partsize_of p mod 2 ^ 32) div block)) = int cnt"
    unfolding blk int_of_uint_block by (simp add: cnt_def t210_bctcount_def min_def)
  have bpos: "block \<noteq> 0" by (simp add: blk)
  obtain bctstart bctend wh2 where rg: "bct_t210_range wh (int cnt) = (bctstart, bctend, wh2)"
    by (cases "bct_t210_range wh (int cnt)")
  obtain r1 w1 where lp: "update_bct_t210_loop fd None newbct ent block copies bctstart bctend w = (r1, w1)"
    by (cases "update_bct_t210_loop fd None newbct ent block copies bctstart bctend w")
  note c = call [unfolded update_bct_t210_def Let_def, folded spi_def, folded blk, folded copies_def]
  from c have soc: "soctype w = TEGRA_SOCTYPE_210" by (auto split: if_splits)
  from c soc have le: "length_bytes ent * copies \<le> block"
    by (auto split: if_splits simp del: update_bct_t210_loop.simps)
  from c soc le p bpos rg lp cnt_int obtain u1 where r1: "r1 = Inr u1" and wh': "wh' = wh2"
    and w': "w' = (sys_fsync fd w1)\<lparr>bct_updated := True\<rparr>"
    by (cases r1) (auto split: if_splits simp del: update_bct_t210_loop.simps)
  from rg lp r1 wh' w' show ?thesis
    unfolding spi_def [symmetric] block_def [symmetric] copies_def [symmetric] cnt_def [symmetric]
    by (simp add: sys_fsync_def del: update_bct_t210_loop.simps)
qed

text \<open>One round of the loop, for any index.\<close>

lemma update_bct_t210_loop_single:
  assumes "update_bct_t210_loop fd None newbct ent block copies j j w = (Inr u, w')"
    and p: "part ent = Some p" and nd: "\<not> (j = 0 \<and> copies = 2)"
  shows "w_log w' = w_log w @ wca_log fd (contentbuf w) (length_bytes ent)
      (first_lba p * 512 + nat ((j * int block) mod 2 ^ 32)) (length_bytes ent)"
proof -
  let ?len = "length_bytes ent"
  let ?off = "first_lba p * 512 + nat ((j * int block) mod 2 ^ 32)"
  obtain r1 w1 where wc: "write_completely_at fd (contentbuf w) ?len ?off ?len w = (r1, w1)"
    by (cases "write_completely_at fd (contentbuf w) ?len ?off ?len w")
  note step = assms(1) [unfolded update_bct_t210_loop.simps [of _ _ _ _ _ _ j j]]
  from step p wc obtain t1 where r1: "r1 = Inr t1"
    by (cases r1) (simp_all add: bct_same_def del: update_bct_t210_loop.simps)
  from step p wc r1 nd have "update_bct_t210_loop fd None newbct ent block copies (j - 1) j w1 = (Inr u, w')"
    by (auto simp add: bct_same_def simp del: update_bct_t210_loop.simps)
  then have "w' = w1" by simp
  with wca_Inr [OF wc [unfolded r1]] show ?thesis by simp
qed

text \<open>The lemma on a BCT partition of three blocks.\<close>

lemma bct_write_multiplicity_instance:
  "part (bct_entry 0 95 512) = Some \<lparr>first_lba = 0, last_lba = 95\<rparr>
   \<and> fst (update_bct test_extern BootDev None (replicate 1024 1) (bct_entry 0 95 512)
            (test_world TEGRA_SOCTYPE_186 False)) = Inr ()
   \<and> w_log (snd (update_bct test_extern BootDev None (replicate 1024 1) (bct_entry 0 95 512)
            (test_world TEGRA_SOCTYPE_186 False)))
      = wca_log BootDev (replicate 1024 1) 512 512 512 @ wca_log BootDev (replicate 1024 1) 512 16384 512
        @ wca_log BootDev (replicate 1024 1) 512 0 512 @ [EvFsync BootDev]
   \<and> t210_bctcount False \<lparr>first_lba = 0, last_lba = 95\<rparr> = 3
   \<and> fst (update_bct_t210 test_extern BootDev None (replicate 1024 1) (bct_entry 0 95 512) (Some (-1))
            (test_world TEGRA_SOCTYPE_210 False)) = Inr 1
   \<and> fst (update_bct_t210 test_extern BootDev None (replicate 1024 1) (bct_entry 0 95 512) (Some 1)
            (test_world TEGRA_SOCTYPE_210 False)) = Inr 0
   \<and> fst (update_bct_t210 test_extern BootDev None (replicate 1024 1) (bct_entry 0 95 512) (Some 0)
            (test_world TEGRA_SOCTYPE_210 False)) = Inr (-1)
   \<and> card (set (write_offsets BootDev
        (w_log (snd (update_bct_t210 test_extern BootDev None (replicate 1024 1) (bct_entry 0 95 512)
                  (Some (-1)) (test_world TEGRA_SOCTYPE_210 False)))
         @ w_log (snd (update_bct_t210 test_extern BootDev None (replicate 1024 1) (bct_entry 0 95 512)
                  (Some 1) (test_world TEGRA_SOCTYPE_210 False)))
         @ w_log (snd (update_bct_t210 test_extern BootDev None (replicate 1024 1) (bct_entry 0 95 512)
                  (Some 0) (test_world TEGRA_SOCTYPE_210 False)))))) = 3"
proof -
  let ?ent = "bct_entry 0 95 512"
  let ?pt = "\<lparr>first_lba = 0, last_lba = 95\<rparr>"
  let ?nb = "replicate 1024 (1 :: byte)"
  let ?w18 = "test_world TEGRA_SOCTYPE_186 False"
  let ?w21 = "test_world TEGRA_SOCTYPE_210 False"
  have p: "part ?ent = Some ?pt" by (simp add: bct_entry_simps)
  have n: "t210_bctcount False ?pt = 3" by (simp add: t210_bctcount_def partsize_of_def)
  note mult = bct_write_multiplicity [OF p]
  \<comment> \<open>tegra186\<close>
  have "\<exists>w'. update_bct test_extern BootDev None ?nb ?ent ?w18 = (Inr (), w')"
    by (rule update_bct_ok [OF p, where sz = 8388608])
       (simp_all add: bct_entry_simps test_world_simps const_dev_simps bct_slot_size_def bct_block_size_def)
  then obtain w' where c: "update_bct test_extern BootDev None ?nb ?ent ?w18 = (Inr (), w')" by blast
  from mult [THEN conjunct1, rule_format, OF c]
  have l18: "w_log w' = wca_log BootDev ?nb 512 512 512 @ wca_log BootDev ?nb 512 16384 512
        @ wca_log BootDev ?nb 512 0 512 @ [EvFsync BootDev]"
    by (simp add: bct_step_log_def bct_same_def bct_slot_size_def bct_block_size_def
        bct_entry_simps test_world_simps)
  \<comment> \<open>tegra210\<close>
  have ok: "\<exists>w'. update_bct_t210 test_extern BootDev None ?nb ?ent (Some wh) ?w21 = (Inr (t210_next wh), w')
      \<and> frame ?w21 (w'\<lparr>bct_updated := bct_updated ?w21\<rparr>)" for wh
    by (rule update_bct_t210_ok [OF _ p, where sz = 8388608])
       (simp_all add: bct_entry_simps test_world_simps const_dev_simps bct_block_size_def n)
  from ok [of "-1"] obtain wa where ca: "update_bct_t210 test_extern BootDev None ?nb ?ent (Some (-1)) ?w21 = (Inr 1, wa)"
    by (auto simp: t210_next_def)
  from ok [of 1] obtain wb where cb: "update_bct_t210 test_extern BootDev None ?nb ?ent (Some 1) ?w21 = (Inr 0, wb)"
    by (auto simp: t210_next_def)
  from ok [of 0] obtain wc where cc: "update_bct_t210 test_extern BootDev None ?nb ?ent (Some 0) ?w21 = (Inr (-1), wc)"
    by (auto simp: t210_next_def)
  have h: "update_bct_t210 test_extern BootDev None ?nb ?ent (Some (-1)) ?w21 = (Inr 1, wa) \<and>
          update_bct_t210 test_extern BootDev None ?nb ?ent (Some 1) ?w21 = (Inr 0, wb) \<and>
          update_bct_t210 test_extern BootDev None ?nb ?ent (Some 0) ?w21 = (Inr (-1), wc) \<and>
          spiboot_platform ?w21 = False \<and> spiboot_platform ?w21 = False \<and> spiboot_platform ?w21 = False \<and>
          1 \<le> t210_bctcount False ?pt \<and> 0 < length_bytes ?ent"
    using ca cb cc n by (simp add: test_world_simps bct_entry_simps)
  from mult [THEN conjunct2, rule_format, OF h] obtain ea eb ec where
    la: "w_log wa = w_log ?w21 @ ea @ [EvFsync BootDev]" and lb: "w_log wb = w_log ?w21 @ eb @ [EvFsync BootDev]"
    and lc: "w_log wc = w_log ?w21 @ ec @ [EvFsync BootDev]"
    and cd: "card (set (write_offsets BootDev (ea @ eb @ ec))) = t210_bctcount False ?pt + (if False then 1 else 0)"
    by blast
  have "write_offsets BootDev (w_log wa @ w_log wb @ w_log wc) = write_offsets BootDev (ea @ eb @ ec)"
    unfolding la lb lc by (simp add: write_offsets_append test_world_simps)
  with cd n have "card (set (write_offsets BootDev (w_log wa @ w_log wb @ w_log wc))) = 3" by simp
  with p c l18 n ca cb cc show ?thesis by simp
qed

lemma wca_past_end:
  assumes d: "w_dev w fd = Some d" and past: "dv_size d \<le> offset"
    and er: "erase_size \<noteq> 0" "erase_size \<le> slotbuf_size w"
  shows "write_completely_at fd buf bufsiz offset erase_size w
     = (Inl EIO, w\<lparr>w_pos := (w_pos w)(fd := offset), w_log := w_log w @ [EvLseek fd offset]\<rparr>)"
proof -
  let ?w1 = "w\<lparr>w_pos := (w_pos w)(fd := offset), w_log := w_log w @ [EvLseek fd offset]\<rparr>"
  have l1: "sys_lseek fd offset w = (int offset, ?w1)" using d by (simp add: sys_lseek_def)
  have sw: "sys_write fd (take erase_size (drop 0 (zerobuf ?w1))) ?w1 = (-1, ?w1)"
    using d past by (simp add: sys_write_def Let_def)
  have "write_loop fd (zerobuf ?w1) 0 erase_size ?w1 = (Inl EIO, ?w1)"
    using er sw by (subst write_loop.simps) (simp add: zerobuf_def del: write_loop.simps)
  with l1 er show ?thesis by (simp add: write_completely_at_def del: write_loop.simps)
qed

lemma bct_t210_short_small:
  "update_bct_t210 test_extern BootDev None (replicate 1024 1) (bct_entry 0 15 512) (Some (-1))
       (test_world TEGRA_SOCTYPE_210 False)
   = (Inl EIO, (test_world TEGRA_SOCTYPE_210 False)
        \<lparr>w_pos := (w_pos (test_world TEGRA_SOCTYPE_210 False))(BootDev := 4294950912),
         w_log := [EvLseek BootDev 4294950912]\<rparr>)"
proof -
  let ?w = "test_world TEGRA_SOCTYPE_210 False"
  let ?ent = "bct_entry 0 15 512"
  let ?w1 = "?w\<lparr>w_pos := (w_pos ?w)(BootDev := 4294950912), w_log := w_log ?w @ [EvLseek BootDev 4294950912]\<rparr>"
  have ps: "partsize_of \<lparr>first_lba = 0, last_lba = 15\<rparr> = 8192" by (simp add: partsize_of_def)
  have wc: "write_completely_at BootDev (contentbuf ?w) 512 4294950912 512 ?w = (Inl EIO, ?w1)"
    by (rule wca_past_end [where d = "const_dev 8388608 0"])
       (simp_all add: test_world_simps const_dev_simps)
  have off: "nat ((- 1 * int (16384::nat)) mod 2 ^ 32) = 4294950912" by simp
  have lp: "update_bct_t210_loop BootDev None (replicate 1024 1) ?ent 16384 1 (-1) (-1) ?w = (Inl EIO, ?w1)"
    using wc off
    by (subst update_bct_t210_loop.simps)
       (simp add: bct_same_def bct_entry_simps del: update_bct_t210_loop.simps)
  have cnt: "min 64 (int_of_uint (8192 mod 2 ^ 32 div 16384)) = 0" by (simp add: int_of_uint_def)
  have "update_bct_t210 test_extern BootDev None (replicate 1024 1) ?ent (Some (-1)) ?w = (Inl EIO, ?w1)"
    using lp cnt
    by (simp add: update_bct_t210_def Let_def test_world_simps bct_entry_simps ps bct_t210_range_def
        del: update_bct_t210_loop.simps)
  then show ?thesis by (simp add: test_world_simps)
qed

text \<open>
  Claim C1 for a BCT partition of 16 sectors on eMMC, which is smaller than one block:
  no copy is in use, so the claim has no offset to write. With \<open>which = -1\<close> the loop of
  \<open>update_bct_t210\<close> still runs once, for the index \<open>-1\<close>, and seeks to the offset
  \<open>2^32 - 16384\<close>, which is \<open>-1\<close> times the block size as an \<open>unsigned int\<close>. On a boot
  device of 8 MiB the write there fails and the call returns \<open>-1\<close>; on a boot device of
  8 GiB the three calls succeed and the first one writes at that offset, outside of the
  partition; the third call writes the copy 0.
\<close>

theorem bct_t210_short_partition:
  "t210_bctcount False \<lparr>first_lba = 0, last_lba = 15\<rparr> = 0
   \<and> fst (update_bct_t210 test_extern BootDev None (replicate 1024 1) (bct_entry 0 15 512) (Some (-1))
            (test_world TEGRA_SOCTYPE_210 False)) = Inl EIO
   \<and> w_log (snd (update_bct_t210 test_extern BootDev None (replicate 1024 1) (bct_entry 0 15 512)
            (Some (-1)) (test_world TEGRA_SOCTYPE_210 False))) = [EvLseek BootDev 4294950912]
   \<and> fst (update_bct_t210 test_extern BootDev None (replicate 1024 1) (bct_entry 0 15 512) (Some (-1))
            (big_world TEGRA_SOCTYPE_210 False)) = Inr 1
   \<and> fst (update_bct_t210 test_extern BootDev None (replicate 1024 1) (bct_entry 0 15 512) (Some 1)
       (snd (update_bct_t210 test_extern BootDev None (replicate 1024 1) (bct_entry 0 15 512) (Some (-1))
            (big_world TEGRA_SOCTYPE_210 False)))) = Inr 0
   \<and> fst (update_bct_t210 test_extern BootDev None (replicate 1024 1) (bct_entry 0 15 512) (Some 0)
       (snd (update_bct_t210 test_extern BootDev None (replicate 1024 1) (bct_entry 0 15 512) (Some 1)
         (snd (update_bct_t210 test_extern BootDev None (replicate 1024 1) (bct_entry 0 15 512) (Some (-1))
            (big_world TEGRA_SOCTYPE_210 False)))))) = Inr (-1)
   \<and> write_offsets BootDev (w_log
       (snd (update_bct_t210 test_extern BootDev None (replicate 1024 1) (bct_entry 0 15 512) (Some 0)
         (snd (update_bct_t210 test_extern BootDev None (replicate 1024 1) (bct_entry 0 15 512) (Some 1)
           (snd (update_bct_t210 test_extern BootDev None (replicate 1024 1) (bct_entry 0 15 512) (Some (-1))
              (big_world TEGRA_SOCTYPE_210 False))))))))
     = [4294950912, 4294950912, 0, 0]"
proof -
  let ?ent = "bct_entry 0 15 512"
  let ?pt = "\<lparr>first_lba = 0, last_lba = 15\<rparr>"
  let ?nb = "replicate 1024 (1 :: byte)"
  let ?w0 = "big_world TEGRA_SOCTYPE_210 False"
  have p: "part ?ent = Some ?pt" by (simp add: bct_entry_simps)
  have n: "t210_bctcount False ?pt = 0" by (simp add: t210_bctcount_def partsize_of_def)
  have mo: "nat ((j * int (bct_block_size False)) mod 2 ^ 32) \<le> 2 ^ 32" for j
    by (simp add: nat_le_iff order_less_imp_le)
  have ok: "\<exists>w'. update_bct_t210 test_extern BootDev None ?nb ?ent (Some wh) w = (Inr wh', w')
      \<and> frame w (w'\<lparr>bct_updated := bct_updated w\<rparr>)"
    if "frame ?w0 (w\<lparr>bct_updated := bct_updated ?w0\<rparr>)" "bct_t210_range wh 0 = (s, e, wh')" for w wh wh' s e
  proof -
    from that(1) have fr: "soctype w = TEGRA_SOCTYPE_210" "spiboot_platform w = False"
      "contentbuf w = replicate 1024 1" "slotbuf_size w = 65536"
      "map_option dv_size (w_dev w BootDev) = Some 8589934592"
      by (simp_all add: frame_def big_world_simps const_dev_simps)
    show ?thesis
      by (rule update_bct_t210_ok_gen [OF fr(1) p _ _ _ _ fr(5), where maxoff = "2 ^ 32" and s = s and e = e])
         (simp_all add: fr bct_entry_simps bct_block_size_def n that(2) nat_le_iff order_less_imp_le)
  qed
  have f0: "frame ?w0 (?w0\<lparr>bct_updated := bct_updated ?w0\<rparr>)" by (simp add: frame_def)
  from ok [OF f0, of "-1" "-1" "-1" 1] obtain w1 where
    c1: "update_bct_t210 test_extern BootDev None ?nb ?ent (Some (-1)) ?w0 = (Inr 1, w1)"
    and f1: "frame ?w0 (w1\<lparr>bct_updated := bct_updated ?w0\<rparr>)"
    by (auto simp: bct_t210_range_def)
  from ok [OF f1, of 1 "-2" 1 0] obtain w2 where
    c2: "update_bct_t210 test_extern BootDev None ?nb ?ent (Some 1) w1 = (Inr 0, w2)"
    and f2': "frame w1 (w2\<lparr>bct_updated := bct_updated w1\<rparr>)"
    by (auto simp: bct_t210_range_def)
  from f1 f2' have f2: "frame ?w0 (w2\<lparr>bct_updated := bct_updated ?w0\<rparr>)" by (simp add: frame_def)
  from ok [OF f2, of 0 0 0 "-1"] obtain w3 where
    c3: "update_bct_t210 test_extern BootDev None ?nb ?ent (Some 0) w2 = (Inr (-1), w3)"
    by (auto simp: bct_t210_range_def)
  from f1 have s1: "spiboot_platform w1 = False" "contentbuf w1 = ?nb" by (simp_all add: frame_def big_world_simps)
  from f2 have s2: "spiboot_platform w2 = False" "contentbuf w2 = ?nb" by (simp_all add: frame_def big_world_simps)
  \<comment> \<open>the logs\<close>
  from update_bct_t210_Inr_loop [OF c1 p] obtain v1 where
    "update_bct_t210_loop BootDev None ?nb ?ent 16384 1 (-1) (-1) ?w0 = (Inr (), v1)"
    and l1: "w_log w1 = w_log v1 @ [EvFsync BootDev]"
    by (auto simp: big_world_simps n bct_t210_range_def bct_block_size_def simp del: update_bct_t210_loop.simps)
  from update_bct_t210_loop_single [OF this(1) p]
  have v1: "w_log v1 = wca_log BootDev ?nb 512 4294950912 512"
    by (simp add: big_world_simps bct_entry_simps)
  from update_bct_t210_Inr_loop [OF c2 p] obtain v2 where
    "update_bct_t210_loop BootDev None ?nb ?ent 16384 1 (-2) 1 w1 = (Inr (), v2)"
    and l2: "w_log w2 = w_log v2 @ [EvFsync BootDev]"
    by (auto simp: s1 n bct_t210_range_def bct_block_size_def simp del: update_bct_t210_loop.simps)
  then have v2: "v2 = w1" by simp
  from update_bct_t210_Inr_loop [OF c3 p] obtain v3 where
    "update_bct_t210_loop BootDev None ?nb ?ent 16384 1 0 0 w2 = (Inr (), v3)"
    and l3: "w_log w3 = w_log v3 @ [EvFsync BootDev]"
    by (auto simp: s2 n bct_t210_range_def bct_block_size_def simp del: update_bct_t210_loop.simps)
  from update_bct_t210_loop_single [OF this(1) p]
  have v3: "w_log v3 = w_log w2 @ wca_log BootDev ?nb 512 0 512"
    by (simp add: s2 bct_entry_simps)
  have "write_offsets BootDev (w_log w3) = [4294950912, 4294950912, 0, 0]"
    unfolding l3 v3 l2 v2 l1 v1 by (simp add: write_offsets_append write_offsets_wca)
  with n c1 c2 c3 show ?thesis by (simp add: bct_t210_short_small)
qed

section \<open>process_entry and maybe_update_bootpart\<close>

text \<open>A write that crosses the end of the device is short, and the next one fails.\<close>

lemma write_loop_overrun:
  assumes d: "w_dev w fd = Some d" and lt: "w_pos w fd < dv_size d"
    and over: "dv_size d < w_pos w fd + remain" and len: "tot + remain \<le> length buf"
  shows "write_loop fd buf tot remain w
      = (Inl EIO, written fd (w_pos w fd) (take (dv_size d - w_pos w fd) (drop tot buf)) w)"
proof -
  define k where "k = dv_size d - w_pos w fd"
  define bytes where "bytes = take remain (drop tot buf)"
  have k: "0 < k" "k < remain" using lt over by (simp_all add: k_def)
  have lb: "length bytes = remain" using len by (simp add: bytes_def)
  define w1 where "w1 = written fd (w_pos w fd) (take k bytes) w"
  have mn: "min (length bytes) (dv_size d - w_pos w fd) = k" using k lb by (simp add: k_def)
  have sw: "sys_write fd bytes w = (int k, w1)"
    using d k lb mn by (simp add: sys_write_def Let_def w1_def written_def)
  have tk: "take k bytes = take k (drop tot buf)" using k by (simp add: bytes_def min_def)
  have ltk: "length (take k bytes) = k" using k lb by simp
  have d1: "w_dev w1 fd = Some (dev_store d (w_pos w fd) (take k bytes))"
    by (simp add: w1_def written_dev [OF d])
  have p1: "w_pos w1 fd = dv_size d"
    unfolding w1_def written_pos [OF d] ltk using lt by (simp add: k_def)
  have sw2: "sys_write fd bytes' w1 = (-1, w1)" for bytes'
    using d1 p1 by (simp add: sys_write_def Let_def dev_store_def)
  have nk: "nat (int k) = k" by simp
  have "write_loop fd buf tot remain w = write_loop fd buf (tot + k) (remain - k) w1"
    using k len sw [unfolded bytes_def]
    by (subst write_loop.simps) (simp del: write_loop.simps)
  also have "\<dots> = (Inl EIO, w1)"
    using k len sw2 by (subst write_loop.simps) (simp del: write_loop.simps)
  finally show ?thesis using tk by (simp add: w1_def k_def)
qed

lemma wca_overrun:
  assumes d: "w_dev w fd = Some d" and lt: "offset < dv_size d"
    and er: "offset + erase_size \<le> dv_size d" "erase_size \<noteq> 0" "erase_size \<le> slotbuf_size w"
    and over: "dv_size d < offset + bufsiz" and len: "bufsiz \<le> length buf"
  shows "\<exists>w'. write_completely_at fd buf bufsiz offset erase_size w = (Inl EIO, w')
     \<and> w_log w' = w_log w @ [EvLseek fd offset, EvWrite fd offset (replicate erase_size 0),
          EvFsync fd, EvLseek fd offset, EvWrite fd offset (take (dv_size d - offset) buf)]"
proof -
  let ?w1 = "w\<lparr>w_pos := (w_pos w)(fd := offset), w_log := w_log w @ [EvLseek fd offset]\<rparr>"
  have l1: "sys_lseek fd offset w = (int offset, ?w1)" using d by (simp add: sys_lseek_def)
  let ?w2 = "written fd offset (replicate erase_size 0) ?w1"
  have e: "write_loop fd (zerobuf ?w1) 0 erase_size ?w1 = (Inr erase_size, ?w2)"
    using write_loop_ok [of ?w1 fd d erase_size 0 "zerobuf ?w1"] d er
    by (simp add: zerobuf_def)
  let ?d2 = "dev_store d offset (replicate erase_size 0)"
  let ?w3 = "(sys_fsync fd ?w2)\<lparr>w_pos := (w_pos (sys_fsync fd ?w2))(fd := offset),
        w_log := w_log (sys_fsync fd ?w2) @ [EvLseek fd offset]\<rparr>"
  have d2: "w_dev (sys_fsync fd ?w2) fd = Some ?d2"
    using d by (simp add: sys_fsync_def written_def)
  then have l3: "sys_lseek fd offset (sys_fsync fd ?w2) = (int offset, ?w3)"
    by (simp add: sys_lseek_def)
  have d3: "w_dev ?w3 fd = Some ?d2" using d2 by simp
  have p3: "w_pos ?w3 fd = offset" by simp
  have sz: "dv_size ?d2 = dv_size d" by (simp add: dev_store_def)
  from write_loop_overrun [OF d3, where buf = buf and tot = 0 and remain = bufsiz] lt over len
  have pay: "write_loop fd buf 0 bufsiz ?w3
      = (Inl EIO, written fd offset (take (dv_size d - offset) buf) ?w3)"
    by (simp add: sz del: write_loop.simps)
  have r: "write_completely_at fd buf bufsiz offset erase_size w
      = (Inl EIO, written fd offset (take (dv_size d - offset) buf) ?w3)"
    using l1 e l3 pay er(2) by (simp add: write_completely_at_def del: write_loop.simps)
  have "w_log (written fd offset (take (dv_size d - offset) buf) ?w3)
      = w_log w @ [EvLseek fd offset, EvWrite fd offset (replicate erase_size 0),
          EvFsync fd, EvLseek fd offset, EvWrite fd offset (take (dv_size d - offset) buf)]"
    using d by (simp add: written_def sys_fsync_def)
  with r show ?thesis by blast
qed

text \<open>An entry whose device node is smaller than its content.\<close>

lemma process_entry_node_overrun:
  assumes b: "w_dev w BupFile = Some b" "bup_offset ent + length_bytes ent \<le> dv_size b"
    and cb: "length_bytes ent \<le> contentbuf_size w" "contentbuf_size w = length (contentbuf w)"
    and pn: "part ent = None"
    and d: "w_dev w (Node (devname ent)) = Some d" "0 < dv_size d" "dv_size d < length_bytes ent"
      "dv_size d < 2 ^ 32" "dv_size d \<le> slotbuf_size w"
  shows "\<exists>w'. process_entry x bootfd gptfd ent False initialize bctctx w = (Inl EIO, w')
     \<and> w_log w' = w_log w @ [EvLseek BupFile (bup_offset ent), EvLseek (Node (devname ent)) 0,
          EvLseek (Node (devname ent)) 0,
          EvWrite (Node (devname ent)) 0 (replicate (dv_size d) 0),
          EvFsync (Node (devname ent)), EvLseek (Node (devname ent)) 0,
          EvWrite (Node (devname ent)) 0
            (dev_bytes b (bup_offset ent) (dv_size d))]"
proof -
  let ?off = "bup_offset ent"
  let ?len = "length_bytes ent"
  let ?n = "Node (devname ent)"
  let ?w0 = "w\<lparr>w_pos := (w_pos w)(BupFile := ?off), w_log := w_log w @ [EvLseek BupFile ?off]\<rparr>"
  have l0: "bup_setpos ?off w = (int ?off, ?w0)" using b by (simp add: bup_setpos_def sys_lseek_def)
  have len: "0 < ?len" using d by simp
  let ?k = "min (contentbuf_size w) (dv_size b - ?off)"
  let ?cb = "buf_store (contentbuf w) 0 (dev_bytes b ?off ?k)"
  let ?w1 = "?w0\<lparr>w_pos := (w_pos ?w0)(BupFile := ?off + ?k), contentbuf := ?cb\<rparr>"
  have rc: "read_content ?len 0 ?w0 = (Inr (), ?w1)"
    using read_content_ok [of ?w0 b ?off ?len] b cb len by simp
  have k: "?len \<le> ?k" using b cb by simp
  have lcb: "length ?cb = length (contentbuf w)" using cb b by (simp add: buf_store_def)
  have d1: "w_dev ?w1 ?n = Some d" using d by simp
  let ?w2 = "?w1\<lparr>w_pos := (w_pos ?w1)(?n := dv_size d)\<rparr>"
  have le: "sys_lseek_end ?n ?w1 = (int (dv_size d), ?w2)" using d1 by (simp add: sys_lseek_end_def)
  let ?w3 = "?w2\<lparr>w_pos := (w_pos ?w2)(?n := 0), w_log := w_log ?w2 @ [EvLseek ?n 0]\<rparr>"
  have l3: "sys_lseek ?n 0 ?w2 = (0, ?w3)" using d by (simp add: sys_lseek_def)
  have md: "nat (int (dv_size d) mod 2 ^ 32) = dv_size d"
    using d(4) by (simp add: nat_mod_distrib)
  have d3: "w_dev ?w3 ?n = Some d" using d by simp
  from wca_overrun [OF d3, of 0 "dv_size d" ?len "contentbuf ?w3"] d cb lcb
  obtain w' where wc: "write_completely_at ?n (contentbuf ?w3) ?len 0 (dv_size d) ?w3 = (Inl EIO, w')"
    and lg: "w_log w' = w_log ?w3 @ [EvLseek ?n 0, EvWrite ?n 0 (replicate (dv_size d) 0),
          EvFsync ?n, EvLseek ?n 0, EvWrite ?n 0 (take (dv_size d) (contentbuf ?w3))]"
    by auto
  have tk: "take (dv_size d) (contentbuf ?w3) = dev_bytes b ?off (dv_size d)"
  proof -
    have "dv_size d \<le> ?k" using k d(3) by simp
    then have "take (dv_size d) ?cb = take (dv_size d) (dev_bytes b ?off ?k)"
      by (simp add: buf_store_def)
    also have "\<dots> = dev_bytes b ?off (dv_size d)"
      using \<open>dv_size d \<le> ?k\<close> by (simp add: dev_bytes_def take_map min_def)
    finally show ?thesis by simp
  qed
  have "process_entry x bootfd gptfd ent False initialize bctctx w = (Inl EIO, w')"
    using l0 rc pn d1 le l3 wc md
    by (simp add: process_entry_def del: read_content.simps)
  with lg tk show ?thesis by auto
qed

text \<open>
  The partition of the boot device is checked against the length of the content before
  any system call.
\<close>

lemma maybe_update_bootpart_too_large:
  "part ent = Some p \<Longrightarrow> length_bytes ent > partsize_of p \<Longrightarrow>
   maybe_update_bootpart x bootfd gptfd ent is_bct initialize bctctx w = (Inl ETooLarge, w)"
  by (simp add: maybe_update_bootpart_def Let_def)

text \<open>
  Claim C6 at an entry for a device node: the node \<open>kernel\<close> has 512 bytes, the content
  of the entry 1024 bytes. \<open>process_entry\<close> seeks to the end of the node for
  \<open>erase_size\<close> and does not compare it with the length of the content: it erases the
  node, writes the first 512 bytes of the content and fails at the next \<open>write\<close>.
\<close>

theorem device_node_overrun:
  "fst (process_entry test_extern BootDev (Some GptDev) (kernel_entry 1024) False 0 None
          (test_world TEGRA_SOCTYPE_186 False)) = Inl EIO
   \<and> w_log (snd (process_entry test_extern BootDev (Some GptDev) (kernel_entry 1024) False 0 None
          (test_world TEGRA_SOCTYPE_186 False)))
     = [EvLseek BupFile 0, EvLseek (Node ''/dev/disk/by-partlabel/kernel'') 0,
        EvLseek (Node ''/dev/disk/by-partlabel/kernel'') 0,
        EvWrite (Node ''/dev/disk/by-partlabel/kernel'') 0 (replicate 512 0),
        EvFsync (Node ''/dev/disk/by-partlabel/kernel''),
        EvLseek (Node ''/dev/disk/by-partlabel/kernel'') 0,
        EvWrite (Node ''/dev/disk/by-partlabel/kernel'') 0 (replicate 512 1)]"
proof -
  let ?w = "test_world TEGRA_SOCTYPE_186 False"
  have e: "part (kernel_entry 1024) = None" "devname (kernel_entry 1024) = ''/dev/disk/by-partlabel/kernel''"
    "bup_offset (kernel_entry 1024) = 0" "length_bytes (kernel_entry 1024) = 1024"
    by (simp_all add: kernel_entry_def)
  have db: "dev_bytes (const_dev 4096 1) 0 512 = replicate 512 1"
    by (simp add: dev_bytes_def const_dev_def map_replicate_const)
  from process_entry_node_overrun [of ?w "const_dev 4096 1" "kernel_entry 1024" "const_dev 512 0"
      test_extern BootDev "Some GptDev" 0 None]
  obtain w' where "process_entry test_extern BootDev (Some GptDev) (kernel_entry 1024) False 0 None ?w
      = (Inl EIO, w')"
    and "w_log w' = [EvLseek BupFile 0, EvLseek (Node ''/dev/disk/by-partlabel/kernel'') 0,
        EvLseek (Node ''/dev/disk/by-partlabel/kernel'') 0,
        EvWrite (Node ''/dev/disk/by-partlabel/kernel'') 0 (replicate 512 0),
        EvFsync (Node ''/dev/disk/by-partlabel/kernel''),
        EvLseek (Node ''/dev/disk/by-partlabel/kernel'') 0,
        EvWrite (Node ''/dev/disk/by-partlabel/kernel'') 0 (replicate 512 1)]"
    by (auto simp: e test_world_simps const_dev_simps db)
  then show ?thesis by simp
qed

section \<open>Targets that hold the content already\<close>

lemma take_buf_store0: "n \<le> length bytes \<Longrightarrow> take n (buf_store buf 0 bytes) = take n bytes"
  by (simp add: buf_store_def)

lemma take_dev_bytes: "n \<le> m \<Longrightarrow> take n (dev_bytes d p m) = dev_bytes d p n"
  by (simp add: dev_bytes_def take_map min_def)

lemma drop_dev_bytes: "k \<le> m \<Longrightarrow> drop k (dev_bytes d p m) = dev_bytes d (p + k) (m - k)"
  by (simp add: dev_bytes_def drop_map add.commute add.left_commute)

lemma take_drop_buf_store0:
  "k + n \<le> length bytes \<Longrightarrow> take n (drop k (buf_store buf 0 bytes)) = take n (drop k bytes)"
  by (simp add: buf_store_def)

lemma length_buf_store0: "length bytes \<le> length buf \<Longrightarrow> length (buf_store buf 0 bytes) = length buf"
  by (simp add: buf_store_def)

lemma changes_log_append: "w_log w' = w_log w @ evs \<Longrightarrow> changes w' = changes w @ filter is_change evs"
  by (simp add: changes_def)


lemma dev_store_nil: "dev_store d p [] = d"
  by (simp add: dev_store_def cong: conj_cong)

lemma dv_size_dev_store: "dv_size (dev_store d p bytes) = dv_size d"
  by (simp add: dev_store_def)

lemma dev_bytes_dev_store_prefix:
  "n \<le> length bytes \<Longrightarrow> dev_bytes (dev_store d p bytes) p n = take n bytes"
  by (auto simp: dev_bytes_def dev_store_def list_eq_iff_nth_eq)

lemma dev_bytes_dev_store_disj:
  "a + n \<le> p \<or> p + length bytes \<le> a \<Longrightarrow> dev_bytes (dev_store d p bytes) a n = dev_bytes d a n"
  by (auto simp: dev_bytes_def dev_store_def)

lemma read_loop_Inr:
  assumes "read_loop fd 0 n w = (Inr t, w')" "n \<noteq> 0"
  shows "\<exists>d. w_dev w fd = Some d \<and> w_pos w fd + n \<le> dv_size d \<and> n \<le> length (slotbuf w)"
proof -
  from assms have len: "n \<le> length (slotbuf w)"
    by (subst (asm) read_loop.simps) (auto split: if_splits simp del: read_loop.simps)
  obtain n1 bytes w1 where sr: "sys_read fd n w = (n1, bytes, w1)" by (cases "sys_read fd n w")
  from assms len sr have pos: "0 < n1"
    and rest: "read_loop fd (nat n1) (n - nat n1) (w1\<lparr>slotbuf := buf_store (slotbuf w1) 0 bytes\<rparr>) = (Inr t, w')"
    by (subst (asm) read_loop.simps; auto split: if_splits simp del: read_loop.simps)+
  from sys_read_cases [OF sr] pos obtain d where d: "w_dev w fd = Some d"
    and n1: "n1 = int (min n (dv_size d - w_pos w fd))"
    and w1: "w1 = w\<lparr>w_pos := (w_pos w)(fd := w_pos w fd + nat n1)\<rparr>" by auto
  have "n \<le> dv_size d - w_pos w fd"
  proof (rule ccontr)
    assume "\<not> n \<le> dv_size d - w_pos w fd"
    then have k: "nat n1 = dv_size d - w_pos w fd" "nat n1 < n" using n1 by (simp_all add: min_def)
    let ?w2 = "w1\<lparr>slotbuf := buf_store (slotbuf w1) 0 bytes\<rparr>"
    have "sys_read fd (n - nat n1) ?w2 = (0, [], ?w2\<lparr>w_pos := (w_pos ?w2)(fd := w_pos ?w2 fd + 0)\<rparr>)"
      using d k pos by (simp add: sys_read_def Let_def w1)
    with k have "\<exists>e w3. read_loop fd (nat n1) (n - nat n1) ?w2 = (Inl e, w3)"
      by (subst read_loop.simps) (simp del: read_loop.simps)
    with rest show False by simp
  qed
  moreover from pos n1 have "w_pos w fd < dv_size d" by (simp add: min_def split: if_splits)
  ultimately show ?thesis using d len by auto
qed

lemma read_completely_at_Inr:
  assumes "read_completely_at fd n offset w = (Inr t, w')"
  shows "(\<exists>d. w_dev w fd = Some d \<and> (n \<noteq> 0 \<longrightarrow> offset + n \<le> dv_size d \<and> n \<le> length (slotbuf w)))
     \<and> t = n \<and> w' = after_read fd offset n w"
proof -
  from assms obtain d where d: "w_dev w fd = Some d"
    by (cases "w_dev w fd") (auto simp: read_completely_at_def sys_lseek_def)
  let ?w1 = "w\<lparr>w_pos := (w_pos w)(fd := offset), w_log := w_log w @ [EvLseek fd offset]\<rparr>"
  have l: "sys_lseek fd offset w = (int offset, ?w1)" using d by (simp add: sys_lseek_def)
  with assms have rl: "read_loop fd 0 n ?w1 = (Inr t, w')"
    by (simp add: read_completely_at_def del: read_loop.simps)
  show ?thesis
  proof (cases "n = 0")
    case True
    with rl have "w' = ?w1" "t = 0" by simp_all
    with True d show ?thesis by (simp add: after_read_def)
  next
    case False
    from read_loop_Inr [OF rl False] d
    have fit: "offset + n \<le> dv_size d" "n \<le> length (slotbuf w)" by simp_all
    from read_completely_at_ok [OF d fit] assms d fit show ?thesis by simp
  qed
qed

lemma read_completely_at_ok0:
  assumes "w_dev w fd = Some d" "n \<noteq> 0 \<longrightarrow> offset + n \<le> dv_size d \<and> n \<le> length (slotbuf w)"
  shows "read_completely_at fd n offset w = (Inr n, after_read fd offset n w)"
proof (cases "n = 0")
  case True
  with assms show ?thesis
    by (simp add: read_completely_at_def sys_lseek_def after_read_def read_loop.simps [of fd 0 0])
next
  case False
  with assms show ?thesis by (intro read_completely_at_ok) auto
qed

lemma read_content_ok0:
  assumes "w_dev w BupFile = Some b" "0 < len"
    "len \<le> min (contentbuf_size w) (dv_size b - w_pos w BupFile)"
    "min (contentbuf_size w) (dv_size b - w_pos w BupFile) \<le> length (contentbuf w)"
  shows "read_content len 0 w
      = (Inr (), w\<lparr>w_pos := (w_pos w)(BupFile := w_pos w BupFile
                        + min (contentbuf_size w) (dv_size b - w_pos w BupFile)),
                   contentbuf := buf_store (contentbuf w) 0
                      (dev_bytes b (w_pos w BupFile)
                         (min (contentbuf_size w) (dv_size b - w_pos w BupFile)))\<rparr>)"
proof -
  define offset where "offset = w_pos w BupFile"
  define k where "k = min (contentbuf_size w) (dv_size b - offset)"
  have k: "len \<le> k" "k \<le> length (contentbuf w)" "0 < k" using assms by (auto simp: k_def offset_def)
  define w2 where "w2 = w\<lparr>w_pos := (w_pos w)(BupFile := offset + k),
      contentbuf := buf_store (contentbuf w) 0 (dev_bytes b offset k)\<rparr>"
  have br: "bup_read (contentbuf_size w - 0) w = (int k, dev_bytes b offset k, w\<lparr>w_pos := (w_pos w)(BupFile := offset + k)\<rparr>)"
    using assms by (simp add: bup_read_def sys_read_def Let_def dev_bytes_def k_def offset_def)
  have fin: "read_content len k w2 = (Inr (), w2)"
    using k by (simp add: read_content.simps [of len k])
  have "read_content len 0 w = read_content len (0 + nat (int k)) w2"
    using assms(2) k br unfolding w2_def
    by (subst read_content.simps) (simp del: read_content.simps)
  with fin show ?thesis by (simp add: w2_def k_def offset_def)
qed

lemma read_content_Inr:
  assumes rc: "read_content len 0 w = (Inr u, w')" and len: "len \<noteq> 0"
  shows "\<exists>b. w_dev w BupFile = Some b
      \<and> len \<le> min (contentbuf_size w) (dv_size b - w_pos w BupFile)
      \<and> min (contentbuf_size w) (dv_size b - w_pos w BupFile) \<le> length (contentbuf w)"
proof -
  obtain n1 bytes w1 where br: "bup_read (contentbuf_size w - 0) w = (n1, bytes, w1)"
    by (cases "bup_read (contentbuf_size w - 0) w")
  from rc len br have pos: "0 < n1" and nf: "nat n1 \<le> length (contentbuf w1)"
    and rest: "read_content len (nat n1) (w1\<lparr>contentbuf := buf_store (contentbuf w1) 0 bytes\<rparr>) = (Inr u, w')"
    by (subst (asm) read_content.simps; auto split: if_splits simp del: read_content.simps)+
  from br have sr: "sys_read BupFile (contentbuf_size w) w = (n1, bytes, w1)" by (simp add: bup_read_def)
  from sys_read_cases [OF sr] pos obtain b where b: "w_dev w BupFile = Some b"
    and n1: "n1 = int (min (contentbuf_size w) (dv_size b - w_pos w BupFile))"
    and w1: "w1 = w\<lparr>w_pos := (w_pos w)(BupFile := w_pos w BupFile + nat n1)\<rparr>" by auto
  define k where "k = min (contentbuf_size w) (dv_size b - w_pos w BupFile)"
  have nk: "nat n1 = k" using n1 by (simp add: k_def)
  let ?w2 = "w1\<lparr>contentbuf := buf_store (contentbuf w1) 0 bytes\<rparr>"
  have "len \<le> k"
  proof (rule ccontr)
    assume "\<not> len \<le> k"
    then have lt: "k < len" by simp
    have z: "min (contentbuf_size w - k) (dv_size b - (w_pos w BupFile + k)) = 0"
      by (auto simp: k_def min_def)
    have "bup_read (contentbuf_size ?w2 - k) ?w2 = (0, [], ?w2\<lparr>w_pos := (w_pos ?w2)(BupFile := w_pos ?w2 BupFile + 0)\<rparr>)"
      using b z by (simp add: bup_read_def sys_read_def Let_def w1 nk)
    moreover have "\<not> contentbuf_size ?w2 < k" by (simp add: w1 k_def)
    ultimately have "\<exists>e w3. read_content len k ?w2 = (Inl e, w3)"
      using lt by (subst read_content.simps) (simp del: read_content.simps)
    with rest nk show False by simp
  qed
  moreover have "k \<le> length (contentbuf w)" using nf nk by (simp add: w1)
  ultimately show ?thesis using b by (auto simp: k_def)
qed

text \<open>The state of the device after a successful \<open>write_completely_at\<close>.\<close>

lemma write_loop_Inr_dev:
  assumes "write_loop fd buf 0 n w = (Inr t, w')" "w_pos w fd = p" "w_dev w fd = Some d"
  shows "(n \<noteq> 0 \<longrightarrow> p + n \<le> dv_size d \<and> n \<le> length buf)
      \<and> w_dev w' = (w_dev w)(fd := Some (dev_store d p (take n buf)))
      \<and> (\<forall>h. h \<noteq> fd \<longrightarrow> w_pos w' h = w_pos w h)"
proof (cases "n = 0")
  case True
  with write_loop_Inr [OF assms(1)] assms(3) show ?thesis
    by (auto simp: dev_store_nil)
next
  case False
  with write_loop_Inr [OF assms(1)] assms(2,3)
  have fit: "p + n \<le> dv_size d" "n \<le> length buf"
    and w': "w' = written fd p (take n buf) w" by auto
  from fit w' assms(3) show ?thesis by (simp add: written_def)
qed

lemma wca_Inr_dev:
  assumes "write_completely_at fd buf bufsiz offset erase_size w = (Inr t, w')"
  shows "\<exists>d. w_dev w fd = Some d
      \<and> (bufsiz \<noteq> 0 \<longrightarrow> offset + bufsiz \<le> dv_size d \<and> bufsiz \<le> length buf)
      \<and> (erase_size \<noteq> 0 \<longrightarrow> offset + erase_size \<le> dv_size d \<and> erase_size \<le> slotbuf_size w)
      \<and> w_dev w' = (w_dev w)(fd := Some (dev_store (dev_store d offset (replicate erase_size 0))
                                          offset (take bufsiz buf)))"
proof -
  obtain r1 w1 where l1: "sys_lseek fd offset w = (r1, w1)" by (cases "sys_lseek fd offset w")
  from assms l1 have ok: "r1 \<noteq> -1" by (auto simp: write_completely_at_def)
  with l1 obtain d where d: "w_dev w fd = Some d"
    by (cases "w_dev w fd") (auto simp: sys_lseek_def)
  with l1 have w1: "w1 = w\<lparr>w_pos := (w_pos w)(fd := offset), w_log := w_log w @ [EvLseek fd offset]\<rparr>"
    by (simp add: sys_lseek_def)
  have p1: "w_pos w1 fd = offset" and d1: "w_dev w1 fd = Some d" and dv1: "w_dev w1 = w_dev w"
    and z1: "slotbuf_size w1 = slotbuf_size w"
    using d by (simp_all add: w1)
  show ?thesis
  proof (cases "erase_size = 0")
    case True
    with assms l1 ok have "write_loop fd buf 0 bufsiz w1 = (Inr t, w')"
      by (simp add: write_completely_at_def)
    from write_loop_Inr_dev [OF this p1 d1] True d dv1 show ?thesis
      by (simp add: dev_store_nil)
  next
    case er: False
    obtain r2 w2 where e: "write_loop fd (zerobuf w1) 0 erase_size w1 = (r2, w2)"
      by (cases "write_loop fd (zerobuf w1) 0 erase_size w1")
    from assms l1 ok er e obtain t2 where r2: "r2 = Inr t2"
      by (cases r2) (auto simp: write_completely_at_def)
    from write_loop_Inr_dev [OF e [unfolded r2] p1 d1] er z1
    have fit2: "offset + erase_size \<le> dv_size d" "erase_size \<le> slotbuf_size w"
      and dv2: "w_dev w2 = (w_dev w)(fd := Some (dev_store d offset (replicate erase_size 0)))"
      by (simp_all add: zerobuf_def dv1)
    obtain r3 w3 where l3: "sys_lseek fd offset (sys_fsync fd w2) = (r3, w3)"
      by (cases "sys_lseek fd offset (sys_fsync fd w2)")
    from assms l1 ok er e r2 l3 have ok3: "r3 \<noteq> -1"
      and wl: "write_loop fd buf 0 bufsiz w3 = (Inr t, w')"
      by (auto simp: write_completely_at_def split: if_splits)
    from l3 dv2 have w3: "w_pos w3 fd = offset"
      "w_dev w3 = (w_dev w)(fd := Some (dev_store d offset (replicate erase_size 0)))"
      by (auto simp: sys_lseek_def sys_fsync_def)
    then have d3: "w_dev w3 fd = Some (dev_store d offset (replicate erase_size 0))" by simp
    from write_loop_Inr_dev [OF wl w3(1) d3] w3(2) d fit2 show ?thesis
      by (simp add: dv_size_dev_store)
  qed
qed

text \<open>The content of an entry: \<open>bup_setpos\<close> and the loop of \<open>bup_read\<close>.\<close>

lemma content_Inr:
  assumes sp: "bup_setpos off w = (r, w0)" and r: "r \<noteq> -1"
    and rc: "read_content len 0 w0 = (Inr u, wc)"
  shows "\<exists>b. w_dev w BupFile = Some b
      \<and> (len \<noteq> 0 \<longrightarrow> len \<le> min (contentbuf_size w) (dv_size b - off)
            \<and> min (contentbuf_size w) (dv_size b - off) \<le> length (contentbuf w))
      \<and> wc = after_content off len w"
proof -
  from sp r obtain b where b: "w_dev w BupFile = Some b"
    by (cases "w_dev w BupFile") (auto simp: bup_setpos_def sys_lseek_def)
  with sp have w0: "w0 = w\<lparr>w_pos := (w_pos w)(BupFile := off), w_log := w_log w @ [EvLseek BupFile off]\<rparr>"
    by (simp add: bup_setpos_def sys_lseek_def)
  show ?thesis
  proof (cases "len = 0")
    case True
    with rc have "wc = w0" by simp
    with True b w0 show ?thesis by (simp add: after_content_def Let_def)
  next
    case False
    from read_content_Inr [OF rc False] b
    have fit: "len \<le> min (contentbuf_size w) (dv_size b - off)"
      "min (contentbuf_size w) (dv_size b - off) \<le> length (contentbuf w)"
      by (simp_all add: w0)
    have "read_content len 0 w0 = (Inr (), after_content off len w)"
      using read_content_ok0 [of w0 b len] b fit False
      by (simp add: w0 after_content_def Let_def)
    with rc b fit show ?thesis by simp
  qed
qed

lemma content_ok:
  assumes b: "w_dev w BupFile = Some b"
    and fit: "len \<noteq> 0 \<longrightarrow> len \<le> min (contentbuf_size w) (dv_size b - off)
            \<and> min (contentbuf_size w) (dv_size b - off) \<le> length (contentbuf w)"
  shows "\<exists>w0. bup_setpos off w = (int off, w0) \<and> read_content len 0 w0 = (Inr (), after_content off len w)"
proof -
  let ?w0 = "w\<lparr>w_pos := (w_pos w)(BupFile := off), w_log := w_log w @ [EvLseek BupFile off]\<rparr>"
  have sp: "bup_setpos off w = (int off, ?w0)" using b by (simp add: bup_setpos_def sys_lseek_def)
  have "read_content len 0 ?w0 = (Inr (), after_content off len w)"
  proof (cases "len = 0")
    case True
    with b show ?thesis by (simp add: after_content_def Let_def)
  next
    case False
    with read_content_ok0 [of ?w0 b len] b fit show ?thesis
      by (simp add: after_content_def Let_def)
  qed
  with sp show ?thesis by blast
qed

lemma after_content_simps:
  assumes "w_dev w BupFile = Some b"
  shows "w_dev (after_content off len w) = w_dev w"
    "w_log (after_content off len w) = w_log w @ [EvLseek BupFile off]"
    "slotbuf (after_content off len w) = slotbuf w"
    "slotbuf_size (after_content off len w) = slotbuf_size w"
    "contentbuf_size (after_content off len w) = contentbuf_size w"
    "bootdev_size (after_content off len w) = bootdev_size w"
    "soctype (after_content off len w) = soctype w"
    "spiboot_platform (after_content off len w) = spiboot_platform w"
    "bct_updated (after_content off len w) = bct_updated w"
  using assms by (simp_all add: after_content_def Let_def)

lemma after_content_buf:
  assumes b: "w_dev w BupFile = Some b"
    and fit: "len \<noteq> 0 \<longrightarrow> len \<le> min (contentbuf_size w) (dv_size b - off)
            \<and> min (contentbuf_size w) (dv_size b - off) \<le> length (contentbuf w)"
  shows "take len (contentbuf (after_content off len w)) = dev_bytes b off len"
    "length (contentbuf (after_content off len w)) = length (contentbuf w)"
    "len \<noteq> 0 \<longrightarrow> len \<le> length (contentbuf w)"
proof -
  define k where "k = min (contentbuf_size w) (dv_size b - off)"
  have cb: "contentbuf (after_content off len w)
      = (if len = 0 then contentbuf w else buf_store (contentbuf w) 0 (dev_bytes b off k))"
    using b by (simp add: after_content_def Let_def k_def)
  from fit have k: "len \<noteq> 0 \<longrightarrow> len \<le> k \<and> k \<le> length (contentbuf w)" by (simp add: k_def)
  show "take len (contentbuf (after_content off len w)) = dev_bytes b off len"
  proof (cases "len = 0")
    case True
    then show ?thesis by (simp add: dev_bytes_def)
  next
    case False
    with k show ?thesis by (simp add: cb take_buf_store0 take_dev_bytes)
  qed
  show "length (contentbuf (after_content off len w)) = length (contentbuf w)"
    using k unfolding cb by (simp add: length_buf_store0)
  show "len \<noteq> 0 \<longrightarrow> len \<le> length (contentbuf w)" using k by auto
qed

lemma after_read_simps:
  assumes "w_dev w fd = Some d"
  shows "w_dev (after_read fd off n w) = w_dev w"
    "w_log (after_read fd off n w) = w_log w @ [EvLseek fd off]"
    "contentbuf (after_read fd off n w) = contentbuf w"
    "slotbuf_size (after_read fd off n w) = slotbuf_size w"
    "contentbuf_size (after_read fd off n w) = contentbuf_size w"
    "bootdev_size (after_read fd off n w) = bootdev_size w"
    "soctype (after_read fd off n w) = soctype w"
    "spiboot_platform (after_read fd off n w) = spiboot_platform w"
    "bct_updated (after_read fd off n w) = bct_updated w"
  using assms by (simp_all add: after_read_def)

lemma after_read_buf:
  assumes "w_dev w fd = Some d" and "n \<noteq> 0 \<longrightarrow> n \<le> length (slotbuf w)"
  shows "length (slotbuf (after_read fd off n w)) = length (slotbuf w)"
    "k + m \<le> n \<Longrightarrow> take m (drop k (slotbuf (after_read fd off n w))) = dev_bytes d (off + k) m"
proof -
  show "length (slotbuf (after_read fd off n w)) = length (slotbuf w)"
    using assms by (simp add: after_read_def length_buf_store0)
  assume km: "k + m \<le> n"
  show "take m (drop k (slotbuf (after_read fd off n w))) = dev_bytes d (off + k) m"
  proof (cases "n = 0")
    case True
    with km show ?thesis by (simp add: dev_bytes_def)
  next
    case False
    with assms km show ?thesis
      by (simp add: after_read_def take_drop_buf_store0 drop_dev_bytes take_dev_bytes)
  qed
qed

text \<open>\<open>maybe_update_bootpart\<close> for an entry that is not the BCT.\<close>

lemma bootpart_skip:
  assumes p: "part ent = Some p" "length_bytes ent \<le> partsize_of p"
    and g: "\<not> (bootdev_size w \<le> first_lba p * 512 \<and> gptfd = None)"
    and fd: "fd = (if bootdev_size w \<le> first_lba p * 512 then the gptfd else bootfd)"
      "offset = (if bootdev_size w \<le> first_lba p * 512 then first_lba p * 512 - bootdev_size w
                 else first_lba p * 512)"
    and d: "w_dev w fd = Some d"
      "partsize_of p \<noteq> 0 \<longrightarrow> offset + partsize_of p \<le> dv_size d \<and> partsize_of p \<le> length (slotbuf w)"
    and cb: "length_bytes ent \<noteq> 0 \<longrightarrow> length_bytes ent \<le> length (contentbuf w)"
    and eq: "dev_bytes d offset (length_bytes ent) = take (length_bytes ent) (contentbuf w)"
  shows "maybe_update_bootpart x bootfd gptfd ent False initialize bctctx w
     = (Inr bctctx, after_read fd offset (partsize_of p) w)"
proof -
  let ?len = "length_bytes ent"
  let ?ps = "partsize_of p"
  let ?w2 = "after_read fd offset ?ps w"
  have rd: "read_completely_at fd ?ps offset w = (Inr ?ps, ?w2)"
    using d by (rule read_completely_at_ok0)
  have sb: "take ?len (drop 0 (slotbuf ?w2)) = dev_bytes d (offset + 0) ?len"
    using d p(2) by (intro after_read_buf) simp_all
  have lsb: "length (slotbuf ?w2) = length (slotbuf w)" using d by (intro after_read_buf) simp_all
  have cb2: "contentbuf ?w2 = contentbuf w" using d(1) by (simp add: after_read_simps)
  have l1: "\<not> ?len > length (contentbuf ?w2)" using cb by (auto simp: cb2)
  have l2: "\<not> 0 + ?len > length (slotbuf ?w2)"
  proof (cases "?ps = 0")
    case True
    with p(2) show ?thesis by simp
  next
    case False
    with d(2) p(2) show ?thesis by (simp add: lsb)
  qed
  have mc: "memcmp_eq (contentbuf ?w2) (slotbuf ?w2) 0 ?len = Some True"
    using l1 l2 sb eq by (simp add: memcmp_eq_def cb2)
  show ?thesis
    using p g fd rd mc by (simp add: maybe_update_bootpart_def Let_def)
qed

lemma bootpart_Inr:
  assumes mu: "maybe_update_bootpart x bootfd gptfd ent False initialize bctctx w = (Inr c, w1)"
    and p: "part ent = Some p"
    and fd: "fd = (if bootdev_size w \<le> first_lba p * 512 then the gptfd else bootfd)"
      "offset = (if bootdev_size w \<le> first_lba p * 512 then first_lba p * 512 - bootdev_size w
                 else first_lba p * 512)"
  shows "length_bytes ent \<le> partsize_of p
    \<and> \<not> (bootdev_size w \<le> first_lba p * 512 \<and> gptfd = None)
    \<and> (length_bytes ent \<noteq> 0 \<longrightarrow> length_bytes ent \<le> length (contentbuf w))
    \<and> contentbuf w1 = contentbuf w \<and> contentbuf_size w1 = contentbuf_size w
    \<and> length (slotbuf w1) = length (slotbuf w) \<and> bootdev_size w1 = bootdev_size w
    \<and> (\<exists>d d1. w_dev w fd = Some d
          \<and> (partsize_of p \<noteq> 0 \<longrightarrow> offset + partsize_of p \<le> dv_size d
                \<and> partsize_of p \<le> length (slotbuf w))
          \<and> w_dev w1 = (w_dev w)(fd := Some d1) \<and> dv_size d1 = dv_size d
          \<and> dev_bytes d1 offset (length_bytes ent) = take (length_bytes ent) (contentbuf w))"
proof -
  let ?len = "length_bytes ent"
  let ?ps = "partsize_of p"
  from mu p have le: "?len \<le> ?ps" and g: "\<not> (bootdev_size w \<le> first_lba p * 512 \<and> gptfd = None)"
    by (auto simp: maybe_update_bootpart_def Let_def split: if_splits)
  obtain r2 w2 where rd: "read_completely_at fd ?ps offset w = (r2, w2)"
    by (cases "read_completely_at fd ?ps offset w")
  from mu p le g fd rd obtain t where r2: "r2 = Inr t"
    by (cases r2) (auto simp: maybe_update_bootpart_def Let_def split: if_splits)
  from read_completely_at_Inr [OF rd [unfolded r2]] obtain d where d: "w_dev w fd = Some d"
    and fit: "?ps \<noteq> 0 \<longrightarrow> offset + ?ps \<le> dv_size d \<and> ?ps \<le> length (slotbuf w)"
    and w2: "w2 = after_read fd offset ?ps w" by blast
  have sb: "take ?len (drop 0 (slotbuf w2)) = dev_bytes d (offset + 0) ?len"
    unfolding w2 using d fit le by (intro after_read_buf) simp_all
  have lsb: "length (slotbuf w2) = length (slotbuf w)"
    unfolding w2 using d fit by (intro after_read_buf) simp_all
  have s2: "contentbuf w2 = contentbuf w" "w_dev w2 = w_dev w" "contentbuf_size w2 = contentbuf_size w"
    "bootdev_size w2 = bootdev_size w"
    using d by (simp_all add: w2 after_read_simps)
  obtain m where mc: "memcmp_eq (contentbuf w2) (slotbuf w2) 0 ?len = Some m"
    using mu p le g fd rd r2
    by (cases "memcmp_eq (contentbuf w2) (slotbuf w2) 0 ?len")
       (auto simp: maybe_update_bootpart_def Let_def split: if_splits)
  then have lc: "?len \<le> length (contentbuf w)"
    and m: "m = (take ?len (contentbuf w) = take ?len (drop 0 (slotbuf w2)))"
    by (auto simp: memcmp_eq_def s2 split: if_splits)
  show ?thesis
  proof (cases m)
    case True
    with mu p le g fd rd r2 mc have "w1 = w2"
      by (auto simp: maybe_update_bootpart_def Let_def split: if_splits)
    moreover have "dev_bytes d offset ?len = take ?len (contentbuf w)"
      using True m sb by simp
    moreover have "w_dev w2 = (w_dev w)(fd := Some d)" using d s2 by (simp add: fun_upd_idem)
    ultimately have "\<exists>d d1. w_dev w fd = Some d
          \<and> (?ps \<noteq> 0 \<longrightarrow> offset + ?ps \<le> dv_size d \<and> ?ps \<le> length (slotbuf w))
          \<and> w_dev w1 = (w_dev w)(fd := Some d1) \<and> dv_size d1 = dv_size d
          \<and> dev_bytes d1 offset ?len = take ?len (contentbuf w)"
      using d fit by (intro exI [of _ d]) simp
    with \<open>w1 = w2\<close> le g lc s2 lsb show ?thesis by simp
  next
    case False
    obtain r3 w3 where wc: "write_completely_at fd (contentbuf w2) ?len offset ?ps w2 = (r3, w3)"
      by (cases "write_completely_at fd (contentbuf w2) ?len offset ?ps w2")
    from mu p le g fd rd r2 mc False wc obtain t3 where r3: "r3 = Inr t3" and w1: "w1 = sys_fsync fd w3"
      by (cases r3) (auto simp: maybe_update_bootpart_def Let_def split: if_splits)
    from frame_wca [OF wc] have f3: "contentbuf w3 = contentbuf w" "contentbuf_size w3 = contentbuf_size w"
      "length (slotbuf w3) = length (slotbuf w)" "bootdev_size w3 = bootdev_size w"
      by (simp_all add: frame_def s2 lsb)
    from wca_Inr_dev [OF wc [unfolded r3]] d s2
    have dv3: "w_dev w3 = (w_dev w)(fd := Some (dev_store (dev_store d offset (replicate ?ps 0))
                                          offset (take ?len (contentbuf w))))"
      by simp
    let ?d1 = "dev_store (dev_store d offset (replicate ?ps 0)) offset (take ?len (contentbuf w))"
    have "dev_bytes ?d1 offset ?len = take ?len (take ?len (contentbuf w))"
      using lc by (intro dev_bytes_dev_store_prefix) simp
    then have "dev_bytes ?d1 offset ?len = take ?len (contentbuf w)" by simp
    moreover have "dv_size ?d1 = dv_size d" by (simp add: dv_size_dev_store)
    ultimately have "\<exists>d d1. w_dev w fd = Some d
          \<and> (?ps \<noteq> 0 \<longrightarrow> offset + ?ps \<le> dv_size d \<and> ?ps \<le> length (slotbuf w))
          \<and> w_dev w1 = (w_dev w)(fd := Some d1) \<and> dv_size d1 = dv_size d
          \<and> dev_bytes d1 offset ?len = take ?len (contentbuf w)"
      using d fit dv3 by (intro exI [of _ d] exI [of _ ?d1]) (simp add: w1 sys_fsync_def)
    with le g lc f3 show ?thesis by (simp add: w1 sys_fsync_def)
  qed
qed

text \<open>An entry for a partition, not the BCT: processed a second time, it is not written.\<close>

lemma process_entry_Inr_parts:
  assumes "process_entry x bootfd gptfd ent False initialize bctctx w = (Inr c, w1)"
    and "part ent = Some p"
  shows "\<exists>r0 w0 u wc. bup_setpos (bup_offset ent) w = (r0, w0) \<and> r0 \<noteq> -1
      \<and> read_content (length_bytes ent) 0 w0 = (Inr u, wc)
      \<and> maybe_update_bootpart x bootfd gptfd ent (partname ent = ''BCT'') initialize bctctx wc = (Inr c, w1)"
proof -
  obtain r0 w0 where sp: "bup_setpos (bup_offset ent) w = (r0, w0)"
    by (cases "bup_setpos (bup_offset ent) w")
  obtain r1 wc where rc: "read_content (length_bytes ent) 0 w0 = (r1, wc)"
    by (cases "read_content (length_bytes ent) 0 w0")
  from assms sp rc show ?thesis
    by (cases r1) (auto simp: process_entry_def split: if_splits simp del: read_content.simps)
qed

lemma process_entry_second_part:
  assumes first: "process_entry x bootfd gptfd ent False initialize bctctx w = (Inr c, w1)"
    and p: "part ent = Some p" "partname ent \<noteq> ''BCT''"
    and fds: "bootfd \<noteq> BupFile" "gptfd \<noteq> Some BupFile"
  shows "\<exists>w2. process_entry x bootfd gptfd ent False initialize bctctx w1 = (Inr bctctx, w2)
      \<and> changes w2 = changes w1"
proof -
  let ?len = "length_bytes ent" and ?off = "bup_offset ent" and ?ps = "partsize_of p"
  from process_entry_Inr_parts [OF first p(1)] p(2) obtain r0 w0 u wc where
    sp: "bup_setpos ?off w = (r0, w0)" and r0: "r0 \<noteq> -1"
    and rc: "read_content ?len 0 w0 = (Inr u, wc)"
    and mu: "maybe_update_bootpart x bootfd gptfd ent False initialize bctctx wc = (Inr c, w1)"
    by auto
  from content_Inr [OF sp r0 rc] obtain b where b: "w_dev w BupFile = Some b"
    and cfit: "?len \<noteq> 0 \<longrightarrow> ?len \<le> min (contentbuf_size w) (dv_size b - ?off)
            \<and> min (contentbuf_size w) (dv_size b - ?off) \<le> length (contentbuf w)"
    and wc: "wc = after_content ?off ?len w" by blast
  note ac = after_content_simps [OF b, of ?off ?len, folded wc]
  note ab = after_content_buf [OF b cfit, folded wc]
  define fd where "fd = (if bootdev_size wc \<le> first_lba p * 512 then the gptfd else bootfd)"
  define offset where "offset = (if bootdev_size wc \<le> first_lba p * 512
      then first_lba p * 512 - bootdev_size wc else first_lba p * 512)"
  from bootpart_Inr [OF mu p(1) fd_def offset_def] obtain d d1 where
    le: "?len \<le> ?ps" and g: "\<not> (bootdev_size wc \<le> first_lba p * 512 \<and> gptfd = None)"
    and k1: "contentbuf w1 = contentbuf wc" "contentbuf_size w1 = contentbuf_size wc"
      "length (slotbuf w1) = length (slotbuf wc)" "bootdev_size w1 = bootdev_size wc"
    and d: "w_dev wc fd = Some d"
    and fit: "?ps \<noteq> 0 \<longrightarrow> offset + ?ps \<le> dv_size d \<and> ?ps \<le> length (slotbuf wc)"
    and dv1: "w_dev w1 = (w_dev wc)(fd := Some d1)" and sz1: "dv_size d1 = dv_size d"
    and eq1: "dev_bytes d1 offset ?len = take ?len (contentbuf wc)"
    by blast
  have fdn: "fd \<noteq> BupFile" using fds g by (auto simp: fd_def)
  have b1: "w_dev w1 BupFile = Some b" using fdn b by (simp add: dv1 ac)
  have cfit1: "?len \<noteq> 0 \<longrightarrow> ?len \<le> min (contentbuf_size w1) (dv_size b - ?off)
            \<and> min (contentbuf_size w1) (dv_size b - ?off) \<le> length (contentbuf w1)"
    using cfit by (simp add: k1 ac ab)
  define wc2 where "wc2 = after_content ?off ?len w1"
  from content_ok [OF b1 cfit1] obtain w0' where
    sp2: "bup_setpos ?off w1 = (int ?off, w0')"
    and rc2: "read_content ?len 0 w0' = (Inr (), wc2)" unfolding wc2_def by blast
  note ac2 = after_content_simps [OF b1, of ?off ?len, folded wc2_def]
  note ab2 = after_content_buf [OF b1 cfit1, folded wc2_def]
  have fd2: "fd = (if bootdev_size wc2 \<le> first_lba p * 512 then the gptfd else bootfd)"
    "offset = (if bootdev_size wc2 \<le> first_lba p * 512
      then first_lba p * 512 - bootdev_size wc2 else first_lba p * 512)"
    by (simp_all add: fd_def offset_def ac2 k1)
  have g2: "\<not> (bootdev_size wc2 \<le> first_lba p * 512 \<and> gptfd = None)" using g by (simp add: ac2 k1)
  have d2: "w_dev wc2 fd = Some d1" by (simp add: ac2 dv1)
  have fit2: "?ps \<noteq> 0 \<longrightarrow> offset + ?ps \<le> dv_size d1 \<and> ?ps \<le> length (slotbuf wc2)"
    using fit by (simp add: sz1 ac2 k1)
  have cb2: "?len \<noteq> 0 \<longrightarrow> ?len \<le> length (contentbuf wc2)"
    using ab2 by simp
  have eq2: "dev_bytes d1 offset ?len = take ?len (contentbuf wc2)"
    using eq1 ab ab2 by simp
  have mu2: "maybe_update_bootpart x bootfd gptfd ent False initialize bctctx wc2
      = (Inr bctctx, after_read fd offset ?ps wc2)"
    using p(1) le g2 fd2 d2 fit2 cb2 eq2 by (rule bootpart_skip)
  have pe: "process_entry x bootfd gptfd ent False initialize bctctx w1
      = (Inr bctctx, after_read fd offset ?ps wc2)"
    unfolding process_entry_def using sp2 rc2 p mu2 by (simp del: read_content.simps)
  have "w_log (after_read fd offset ?ps wc2) = w_log w1 @ [EvLseek BupFile ?off, EvLseek fd offset]"
    using d2 by (simp add: after_read_simps ac2)
  then have "changes (after_read fd offset ?ps wc2) = changes w1" by (simp add: changes_def)
  with pe show ?thesis by blast
qed

text \<open>The three copies of the BCT of tegra186 and tegra194 after \<open>update_bct\<close>.\<close>

lemma bct_regions_disjoint:
  assumes "i < 3" "j < 3" "i \<noteq> j" "len \<le> slot" "2 * slot \<le> block" "k \<le> slot"
  shows "(base + bct_offset j slot block) + len \<le> base + bct_offset i slot block
     \<or> (base + bct_offset i slot block) + k \<le> base + bct_offset j slot block"
  using assms by (auto simp: bct_offset_def)

lemma dev_bytes_wca_other:
  assumes "a + n \<le> p \<or> p + e \<le> a" "length bytes \<le> e"
  shows "dev_bytes (dev_store (dev_store d p (replicate e 0)) p bytes) a n = dev_bytes d a n"
proof -
  from assms have "a + n \<le> p \<or> p + length bytes \<le> a" by auto
  then have "dev_bytes (dev_store (dev_store d p (replicate e 0)) p bytes) a n
      = dev_bytes (dev_store d p (replicate e 0)) a n"
    by (rule dev_bytes_dev_store_disj)
  also have "\<dots> = dev_bytes d a n"
    using assms(1) by (intro dev_bytes_dev_store_disj) simp
  finally show ?thesis .
qed

lemma update_bct_loop_dev:
  assumes p: "part ent = Some p"
    and lay: "length_bytes ent \<le> slot" "2 * slot \<le> block"
  shows "update_bct_loop fd curbct newbct ent block slot i w = (Inr u, w') \<Longrightarrow>
     w_dev w fd = Some d \<Longrightarrow>
     (\<And>j. j < i \<Longrightarrow> j < 3 \<Longrightarrow>
        dev_bytes d (first_lba p * 512 + bct_offset j slot block) (length_bytes ent)
          = take (length_bytes ent) newbct) \<Longrightarrow>
     (\<And>j. i \<le> j \<Longrightarrow> j < 3 \<Longrightarrow>
        bct_same curbct newbct (bct_offset j slot block) (length_bytes ent) = Some True \<Longrightarrow>
        dev_bytes d (first_lba p * 512 + bct_offset j slot block) (length_bytes ent)
          = take (length_bytes ent) newbct) \<Longrightarrow>
     \<exists>d'. w_dev w' = (w_dev w)(fd := Some d') \<and> dv_size d' = dv_size d
        \<and> (\<forall>j<3. dev_bytes d' (first_lba p * 512 + bct_offset j slot block) (length_bytes ent)
              = take (length_bytes ent) newbct)
        \<and> frame w w'"
proof (induction "3 - i" arbitrary: i w d)
  case 0
  then have i: "\<not> i < 3" by simp
  with "0.prems"(1) have "w' = w" by simp
  moreover have "w_dev w = (w_dev w)(fd := Some d)" using "0.prems"(2) by (simp add: fun_upd_idem)
  moreover have "\<forall>j<3. dev_bytes d (first_lba p * 512 + bct_offset j slot block) (length_bytes ent)
              = take (length_bytes ent) newbct"
    using "0.prems"(3) i by auto
  ultimately show ?case by (intro exI [of _ d]) (simp add: frame_refl)
next
  case (Suc k)
  then have i: "i < 3" and k: "k = 3 - (i + 1)" by simp_all
  let ?len = "length_bytes ent"
  let ?base = "first_lba p * 512"
  let ?off = "bct_offset i slot block"
  note run = Suc.prems(1) [unfolded update_bct_loop.simps [of _ _ _ _ _ _ i]]
  note dv = Suc.prems(2)
  note before = Suc.prems(3)
  note skipped = Suc.prems(4)
  obtain m where sm: "bct_same curbct newbct ?off ?len = Some m"
    using run i
    by (cases "bct_same curbct newbct ?off ?len") (auto simp del: update_bct_loop.simps)
  show ?case
  proof (cases m)
    case True
    with run i sm have nx: "update_bct_loop fd curbct newbct ent block slot (i + 1) w = (Inr u, w')"
      by (simp del: update_bct_loop.simps)
    have b1: "dev_bytes d (?base + bct_offset j slot block) ?len = take ?len newbct"
      if "j < i + 1" "j < 3" for j
    proof (cases "j = i")
      case True
      with skipped [of i] sm \<open>m\<close> i show ?thesis by simp
    next
      case False
      with that before [of j] show ?thesis by simp
    qed
    have s1: "dev_bytes d (?base + bct_offset j slot block) ?len = take ?len newbct"
      if "i + 1 \<le> j" "j < 3" "bct_same curbct newbct (bct_offset j slot block) ?len = Some True" for j
      using that skipped [of j] by simp
    from Suc.hyps(1) [OF k nx dv b1 s1] show ?thesis .
  next
    case False
    obtain r1 w1 where wc: "write_completely_at fd newbct ?len (?base + ?off) slot w = (r1, w1)"
      by (cases "write_completely_at fd newbct ?len (?base + ?off) slot w")
    from run i sm False p wc obtain t where r1: "r1 = Inr t"
      and nx: "update_bct_loop fd curbct newbct ent block slot (i + 1) w1 = (Inr u, w')"
      by (cases r1) (auto simp del: update_bct_loop.simps)
    let ?d1 = "dev_store (dev_store d (?base + ?off) (replicate slot 0)) (?base + ?off) (take ?len newbct)"
    from wca_Inr_dev [OF wc [unfolded r1]] dv
    have ln: "?len \<noteq> 0 \<longrightarrow> ?len \<le> length newbct"
      and dv1: "w_dev w1 = (w_dev w)(fd := Some ?d1)" by auto
    have d1: "w_dev w1 fd = Some ?d1" by (simp add: dv1)
    have f1: "frame w w1" using wc by (rule frame_wca)
    have here: "dev_bytes ?d1 (?base + ?off) ?len = take ?len newbct"
    proof -
      have "dev_bytes ?d1 (?base + ?off) ?len = take ?len (take ?len newbct)"
        using ln by (intro dev_bytes_dev_store_prefix) auto
      then show ?thesis by simp
    qed
    have other: "dev_bytes ?d1 (?base + bct_offset j slot block) ?len
        = dev_bytes d (?base + bct_offset j slot block) ?len" if "j < 3" "j \<noteq> i" for j
    proof -
      have "length (take ?len newbct) \<le> slot" using lay(1) by simp
      with bct_regions_disjoint [OF i that(1) that(2) [symmetric] lay order_refl, of ?base]
      show ?thesis by (intro dev_bytes_wca_other)
    qed
    have b1: "dev_bytes ?d1 (?base + bct_offset j slot block) ?len = take ?len newbct"
      if "j < i + 1" "j < 3" for j
    proof (cases "j = i")
      case True
      with here show ?thesis by simp
    next
      case False
      with that before [of j] other [of j] show ?thesis by simp
    qed
    have s1: "dev_bytes ?d1 (?base + bct_offset j slot block) ?len = take ?len newbct"
      if "i + 1 \<le> j" "j < 3" "bct_same curbct newbct (bct_offset j slot block) ?len = Some True" for j
      using that skipped [of j] other [of j] by simp
    from Suc.hyps(1) [OF k nx d1 b1 s1] obtain d' where
      "w_dev w' = (w_dev w1)(fd := Some d')" "dv_size d' = dv_size ?d1"
      "\<forall>j<3. dev_bytes d' (?base + bct_offset j slot block) ?len = take ?len newbct"
      "frame w1 w'" by blast
    with dv1 f1 show ?thesis
      by (intro exI [of _ d']) (auto simp: dv_size_dev_store intro: frame_trans)
  qed
qed

lemma update_bct_loop_skip:
  assumes "\<And>j. j < 3 \<Longrightarrow> bct_same curbct newbct (bct_offset j slot block) (length_bytes ent) = Some True"
  shows "update_bct_loop fd curbct newbct ent block slot i w = (Inr (), w)"
proof (induction "3 - i" arbitrary: i)
  case 0
  then show ?case by simp
next
  case (Suc k)
  then have i: "i < 3" and k: "k = 3 - (i + 1)" by simp_all
  from Suc.hyps(1) [OF k] assms [OF i] i show ?case
    by (subst update_bct_loop.simps) (simp del: update_bct_loop.simps)
qed

lemma bct_slot_size_ge: "len \<le> bct_slot_size spi len"
  by (simp add: bct_slot_size_def) arith

lemma bct_offset_le:
  assumes "j < 3" "2 * slot \<le> block"
  shows "bct_offset j slot block \<le> block"
  using assms by (simp add: bct_offset_def)

lemma update_bct_eq:
  "update_bct x bootfd curbct newbct ent w =
     (if soctype w = TEGRA_SOCTYPE_210 then (Inl EInternal, w)
      else if (case curbct of
                    None \<Rightarrow> False
                  | Some cur \<Rightarrow>
                      (soctype w = TEGRA_SOCTYPE_186 \<and> \<not> bct_update_valid_t18x x cur newbct) \<or>
                      (soctype w = TEGRA_SOCTYPE_194 \<and> \<not> bct_update_valid_t19x x cur newbct))
      then (Inl EValidation, w)
      else case update_bct_loop bootfd curbct newbct ent (bct_block_size (spiboot_platform w))
                  (bct_slot_size (spiboot_platform w) (length_bytes ent)) 0 w of
             (Inl e, w') \<Rightarrow> (Inl e, w')
           | (Inr u, w') \<Rightarrow> (Inr (), (sys_fsync bootfd w')\<lparr>bct_updated := True\<rparr>))"
  by (simp add: update_bct_def Let_def bct_slot_size_def bct_block_size_def del: update_bct_loop.simps)

text \<open>\<open>maybe_update_bootpart\<close> for the BCT of tegra186 and tegra194, not initializing.\<close>

lemma bct_bootpart_Inr:
  assumes mu: "maybe_update_bootpart x bootfd gptfd ent True 0 bctctx w = (Inr c, w1)"
    and p: "part ent = Some p"
    and soc: "soctype w \<noteq> TEGRA_SOCTYPE_210"
    and inb: "first_lba p * 512 < bootdev_size w"
    and lay: "2 * bct_slot_size (spiboot_platform w) (length_bytes ent) \<le> bct_block_size (spiboot_platform w)"
    and room: "bct_block_size (spiboot_platform w) + length_bytes ent \<le> partsize_of p"
  shows "(length_bytes ent \<noteq> 0 \<longrightarrow> length_bytes ent \<le> length (contentbuf w))
    \<and> contentbuf_size w1 = contentbuf_size w \<and> length (contentbuf w1) = length (contentbuf w)
    \<and> length (slotbuf w1) = length (slotbuf w) \<and> bootdev_size w1 = bootdev_size w
    \<and> soctype w1 = soctype w \<and> spiboot_platform w1 = spiboot_platform w
    \<and> (\<exists>d d1. w_dev w bootfd = Some d
          \<and> first_lba p * 512 + partsize_of p \<le> dv_size d \<and> partsize_of p \<le> length (slotbuf w)
          \<and> w_dev w1 = (w_dev w)(bootfd := Some d1) \<and> dv_size d1 = dv_size d
          \<and> (\<forall>j<3. dev_bytes d1 (first_lba p * 512
                  + bct_offset j (bct_slot_size (spiboot_platform w) (length_bytes ent))
                      (bct_block_size (spiboot_platform w))) (length_bytes ent)
                = take (length_bytes ent) (contentbuf w)))"
proof -
  let ?len = "length_bytes ent" and ?ps = "partsize_of p" and ?base = "first_lba p * 512"
  define slot where "slot = bct_slot_size (spiboot_platform w) ?len"
  define block where "block = bct_block_size (spiboot_platform w)"
  have bpos: "0 < block" by (simp add: block_def bct_block_size_def)
  with room have ps0: "?ps \<noteq> 0" by (simp add: block_def)
  have le: "?len \<le> ?ps" using room by simp
  have ls: "?len \<le> slot" by (simp add: slot_def bct_slot_size_ge)
  note lay' = lay [folded slot_def block_def]
  obtain r2 w2 where rd: "read_completely_at bootfd ?ps ?base w = (r2, w2)"
    by (cases "read_completely_at bootfd ?ps ?base w")
  from mu p le inb rd obtain t where r2: "r2 = Inr t"
    by (cases r2) (auto simp: maybe_update_bootpart_def Let_def split: if_splits)
  from read_completely_at_Inr [OF rd [unfolded r2]] ps0 obtain d where d: "w_dev w bootfd = Some d"
    and fit: "?base + ?ps \<le> dv_size d" "?ps \<le> length (slotbuf w)"
    and w2: "w2 = after_read bootfd ?base ?ps w" by blast
  note ar = after_read_simps [OF d, of ?base ?ps, folded w2]
  have lsb: "length (slotbuf w2) = length (slotbuf w)"
    unfolding w2 using d fit by (intro after_read_buf) simp_all
  have sb: "take ?len (drop k (slotbuf w2)) = dev_bytes d (?base + k) ?len" if "k + ?len \<le> ?ps" for k
    unfolding w2 using d fit that by (intro after_read_buf) simp_all
  from mu p le inb rd r2 soc
  have ub: "update_bct x bootfd (Some (slotbuf w2)) (contentbuf w2) ent w2 = (Inr (), w1)"
    by (auto simp: maybe_update_bootpart_def Let_def ar split: if_splits prod.splits sum.splits)
  obtain r3 w3 where lp: "update_bct_loop bootfd (Some (slotbuf w2)) (contentbuf w2) ent block slot 0 w2 = (r3, w3)"
    by (cases "update_bct_loop bootfd (Some (slotbuf w2)) (contentbuf w2) ent block slot 0 w2")
  from ub lp obtain u where r3: "r3 = Inr u" and w1: "w1 = (sys_fsync bootfd w3)\<lparr>bct_updated := True\<rparr>"
    by (cases r3)
       (auto simp: update_bct_eq ar slot_def [symmetric] block_def [symmetric]
          split: if_splits simp del: update_bct_loop.simps)
  have d2: "w_dev w2 bootfd = Some d" using d by (simp add: ar)
  have skipped: "dev_bytes d (?base + bct_offset j slot block) ?len = take ?len (contentbuf w2)"
    if "0 \<le> j" "j < 3"
      "bct_same (Some (slotbuf w2)) (contentbuf w2) (bct_offset j slot block) ?len = Some True" for j
  proof -
    from bct_offset_le [OF that(2) lay'] room
    have "bct_offset j slot block + ?len \<le> ?ps" by (simp add: block_def)
    from sb [OF this] that(3) show ?thesis
      by (simp add: bct_same_def memcmp_eq_def split: if_splits)
  qed
  have before: "dev_bytes d (?base + bct_offset j slot block) ?len = take ?len (contentbuf w2)"
    if "j < (0::nat)" "j < 3" for j using that by simp
  from update_bct_loop_dev [OF p ls lay' lp [unfolded r3] d2 before skipped]
  obtain d' where dv3: "w_dev w3 = (w_dev w2)(bootfd := Some d')" and sz: "dv_size d' = dv_size d"
    and cp: "\<forall>j<3. dev_bytes d' (?base + bct_offset j slot block) ?len = take ?len (contentbuf w2)"
    and f3: "frame w2 w3" by blast
  have lc: "?len \<noteq> 0 \<longrightarrow> ?len \<le> length (contentbuf w)"
  proof
    assume n0: "?len \<noteq> 0"
    have "bct_same (Some (slotbuf w2)) (contentbuf w2) (bct_offset 0 slot block) ?len \<noteq> None"
      using lp r3 by (subst (asm) update_bct_loop.simps)
        (auto simp del: update_bct_loop.simps split: option.splits)
    then show "?len \<le> length (contentbuf w)"
      by (auto simp: bct_same_def memcmp_eq_def ar split: if_splits)
  qed
  have "\<exists>d d1. w_dev w bootfd = Some d
          \<and> ?base + ?ps \<le> dv_size d \<and> ?ps \<le> length (slotbuf w)
          \<and> w_dev w1 = (w_dev w)(bootfd := Some d1) \<and> dv_size d1 = dv_size d
          \<and> (\<forall>j<3. dev_bytes d1 (?base + bct_offset j slot block) ?len = take ?len (contentbuf w))"
    using d fit dv3 sz cp
    by (intro exI [of _ d] exI [of _ d']) (simp add: w1 sys_fsync_def ar)
  moreover from f3 have "contentbuf_size w1 = contentbuf_size w" "length (contentbuf w1) = length (contentbuf w)"
    "length (slotbuf w1) = length (slotbuf w)" "bootdev_size w1 = bootdev_size w"
    "soctype w1 = soctype w" "spiboot_platform w1 = spiboot_platform w"
    by (simp_all add: frame_def w1 sys_fsync_def ar lsb)
  ultimately show ?thesis using lc unfolding slot_def block_def by simp
qed

lemma bct_bootpart_second:
  assumes p: "part ent = Some p"
    and soc: "soctype w \<noteq> TEGRA_SOCTYPE_210"
    and inb: "first_lba p * 512 < bootdev_size w"
    and lay: "2 * bct_slot_size (spiboot_platform w) (length_bytes ent) \<le> bct_block_size (spiboot_platform w)"
    and room: "bct_block_size (spiboot_platform w) + length_bytes ent \<le> partsize_of p"
    and d: "w_dev w bootfd = Some d" "first_lba p * 512 + partsize_of p \<le> dv_size d"
      "partsize_of p \<le> length (slotbuf w)"
    and cb: "length_bytes ent \<noteq> 0 \<longrightarrow> length_bytes ent \<le> length (contentbuf w)"
    and cp: "\<forall>j<3. dev_bytes d (first_lba p * 512
                  + bct_offset j (bct_slot_size (spiboot_platform w) (length_bytes ent))
                      (bct_block_size (spiboot_platform w))) (length_bytes ent)
                = take (length_bytes ent) (contentbuf w)"
  shows "\<exists>r w'. maybe_update_bootpart x bootfd gptfd ent True 0 bctctx w = (r, w')
     \<and> (r = Inr bctctx \<or> r = Inl EValidation) \<and> changes w' = changes w"
proof -
  let ?len = "length_bytes ent" and ?ps = "partsize_of p" and ?base = "first_lba p * 512"
  define slot where "slot = bct_slot_size (spiboot_platform w) ?len"
  define block where "block = bct_block_size (spiboot_platform w)"
  note lay' = lay [folded slot_def block_def]
  have le: "?len \<le> ?ps" using room by simp
  let ?w2 = "after_read bootfd ?base ?ps w"
  have rd: "read_completely_at bootfd ?ps ?base w = (Inr ?ps, ?w2)"
    by (rule read_completely_at_ok0 [OF d(1)]) (simp add: d)
  note ar = after_read_simps [OF d(1), of ?base ?ps]
  have lsb: "length (slotbuf ?w2) = length (slotbuf w)"
    using d by (intro after_read_buf) simp_all
  have sb: "take ?len (drop k (slotbuf ?w2)) = dev_bytes d (?base + k) ?len" if "k + ?len \<le> ?ps" for k
    using d that by (intro after_read_buf) simp_all
  have same: "bct_same (Some (slotbuf ?w2)) (contentbuf ?w2) (bct_offset j slot block) ?len = Some True"
    if "j < 3" for j
  proof -
    from bct_offset_le [OF that lay'] room
    have ol: "bct_offset j slot block + ?len \<le> ?ps" by (simp add: block_def)
    from sb [OF ol] cp that
    have "take ?len (drop (bct_offset j slot block) (slotbuf ?w2)) = take ?len (contentbuf w)"
      by (simp add: slot_def block_def)
    moreover have "bct_offset j slot block + ?len \<le> length (slotbuf ?w2)" using ol d(3) lsb by simp
    moreover have "\<not> ?len > length (contentbuf w)" using cb by auto
    ultimately show ?thesis by (simp add: bct_same_def memcmp_eq_def ar)
  qed
  have lp: "update_bct_loop bootfd (Some (slotbuf ?w2)) (contentbuf ?w2) ent block slot 0 ?w2 = (Inr (), ?w2)"
    using same by (rule update_bct_loop_skip)
  have ub: "update_bct x bootfd (Some (slotbuf ?w2)) (contentbuf ?w2) ent ?w2
      = (Inr (), (sys_fsync bootfd ?w2)\<lparr>bct_updated := True\<rparr>)
    \<or> update_bct x bootfd (Some (slotbuf ?w2)) (contentbuf ?w2) ent ?w2 = (Inl EValidation, ?w2)"
    using soc lp
    by (auto simp: update_bct_eq ar slot_def [symmetric] block_def [symmetric]
        simp del: update_bct_loop.simps)
  have c2: "changes ?w2 = changes w" "changes ((sys_fsync bootfd ?w2)\<lparr>bct_updated := True\<rparr>) = changes w"
    by (simp_all add: changes_def ar sys_fsync_def)
  have mu: "maybe_update_bootpart x bootfd gptfd ent True 0 bctctx w
      = (case update_bct x bootfd (Some (slotbuf ?w2)) (contentbuf ?w2) ent ?w2 of
           (Inl e, w2) \<Rightarrow> (Inl e, w2) | (Inr u, w2) \<Rightarrow> (Inr bctctx, w2))"
    using p le inb rd soc by (simp add: maybe_update_bootpart_def Let_def ar)
  from ub show ?thesis
  proof
    assume "update_bct x bootfd (Some (slotbuf ?w2)) (contentbuf ?w2) ent ?w2
      = (Inr (), (sys_fsync bootfd ?w2)\<lparr>bct_updated := True\<rparr>)"
    with mu c2 show ?thesis by simp
  next
    assume "update_bct x bootfd (Some (slotbuf ?w2)) (contentbuf ?w2) ent ?w2 = (Inl EValidation, ?w2)"
    with mu c2 show ?thesis by simp
  qed
qed

text \<open>The BCT of tegra186 and tegra194, not initializing: processed a second time, it is
  not written.\<close>

lemma process_entry_second_bct:
  assumes first: "process_entry x bootfd gptfd ent False 0 bctctx w = (Inr c, w1)"
    and p: "part ent = Some p" "partname ent = ''BCT''"
    and fds: "bootfd \<noteq> BupFile"
    and soc: "soctype w \<noteq> TEGRA_SOCTYPE_210"
    and inb: "first_lba p * 512 < bootdev_size w"
    and lay: "2 * bct_slot_size (spiboot_platform w) (length_bytes ent) \<le> bct_block_size (spiboot_platform w)"
    and room: "bct_block_size (spiboot_platform w) + length_bytes ent \<le> partsize_of p"
  shows "\<exists>r w2. process_entry x bootfd gptfd ent False 0 bctctx w1 = (r, w2)
      \<and> (r = Inr bctctx \<or> r = Inl EValidation) \<and> changes w2 = changes w1"
proof -
  let ?len = "length_bytes ent" and ?off = "bup_offset ent" and ?ps = "partsize_of p"
  from process_entry_Inr_parts [OF first p(1)] p(2) obtain r0 w0 u wc where
    sp: "bup_setpos ?off w = (r0, w0)" and r0: "r0 \<noteq> -1"
    and rc: "read_content ?len 0 w0 = (Inr u, wc)"
    and mu: "maybe_update_bootpart x bootfd gptfd ent True 0 bctctx wc = (Inr c, w1)"
    by auto
  from content_Inr [OF sp r0 rc] obtain b where b: "w_dev w BupFile = Some b"
    and cfit: "?len \<noteq> 0 \<longrightarrow> ?len \<le> min (contentbuf_size w) (dv_size b - ?off)
            \<and> min (contentbuf_size w) (dv_size b - ?off) \<le> length (contentbuf w)"
    and wc: "wc = after_content ?off ?len w" by blast
  note ac = after_content_simps [OF b, of ?off ?len, folded wc]
  note ab = after_content_buf [OF b cfit, folded wc]
  have h: "soctype wc \<noteq> TEGRA_SOCTYPE_210" "first_lba p * 512 < bootdev_size wc"
    "2 * bct_slot_size (spiboot_platform wc) ?len \<le> bct_block_size (spiboot_platform wc)"
    "bct_block_size (spiboot_platform wc) + ?len \<le> ?ps"
    using soc inb lay room by (simp_all add: ac)
  from bct_bootpart_Inr [OF mu p(1) h] obtain d d1 where
    k1: "contentbuf_size w1 = contentbuf_size wc" "length (contentbuf w1) = length (contentbuf wc)"
      "length (slotbuf w1) = length (slotbuf wc)" "bootdev_size w1 = bootdev_size wc"
      "soctype w1 = soctype wc" "spiboot_platform w1 = spiboot_platform wc"
    and d: "w_dev wc bootfd = Some d"
    and fit: "first_lba p * 512 + ?ps \<le> dv_size d" "?ps \<le> length (slotbuf wc)"
    and dv1: "w_dev w1 = (w_dev wc)(bootfd := Some d1)" and sz1: "dv_size d1 = dv_size d"
    and cp: "\<forall>j<3. dev_bytes d1 (first_lba p * 512
                  + bct_offset j (bct_slot_size (spiboot_platform wc) ?len)
                      (bct_block_size (spiboot_platform wc))) ?len
                = take ?len (contentbuf wc)"
    by blast
  have b1: "w_dev w1 BupFile = Some b" using fds b by (simp add: dv1 ac)
  have cfit1: "?len \<noteq> 0 \<longrightarrow> ?len \<le> min (contentbuf_size w1) (dv_size b - ?off)
            \<and> min (contentbuf_size w1) (dv_size b - ?off) \<le> length (contentbuf w1)"
    using cfit by (simp add: k1 ac ab)
  define wc2 where "wc2 = after_content ?off ?len w1"
  from content_ok [OF b1 cfit1] obtain w0' where
    sp2: "bup_setpos ?off w1 = (int ?off, w0')"
    and rc2: "read_content ?len 0 w0' = (Inr (), wc2)" unfolding wc2_def by blast
  note ac2 = after_content_simps [OF b1, of ?off ?len, folded wc2_def]
  note ab2 = after_content_buf [OF b1 cfit1, folded wc2_def]
  have h2: "soctype wc2 \<noteq> TEGRA_SOCTYPE_210" "first_lba p * 512 < bootdev_size wc2"
    "2 * bct_slot_size (spiboot_platform wc2) ?len \<le> bct_block_size (spiboot_platform wc2)"
    "bct_block_size (spiboot_platform wc2) + ?len \<le> ?ps"
    using h by (simp_all add: ac2 k1)
  have d2: "w_dev wc2 bootfd = Some d1" "first_lba p * 512 + ?ps \<le> dv_size d1"
    "?ps \<le> length (slotbuf wc2)"
    using fit by (simp_all add: ac2 dv1 sz1 k1)
  have cb2: "?len \<noteq> 0 \<longrightarrow> ?len \<le> length (contentbuf wc2)" using ab2 by simp
  have cp2: "\<forall>j<3. dev_bytes d1 (first_lba p * 512
                  + bct_offset j (bct_slot_size (spiboot_platform wc2) ?len)
                      (bct_block_size (spiboot_platform wc2))) ?len
                = take ?len (contentbuf wc2)"
    using cp ab ab2 by (simp add: ac2 k1)
  from bct_bootpart_second [OF p(1) h2 d2 cb2 cp2, of x gptfd bctctx] obtain r w2 where
    mu2: "maybe_update_bootpart x bootfd gptfd ent True 0 bctctx wc2 = (r, w2)"
    and r: "r = Inr bctctx \<or> r = Inl EValidation" and ch: "changes w2 = changes wc2" by blast
  have pe: "process_entry x bootfd gptfd ent False 0 bctctx w1 = (r, w2)"
    unfolding process_entry_def using sp2 rc2 p mu2 by (simp del: read_content.simps)
  have "changes wc2 = changes w1" by (simp add: changes_def ac2)
  with pe r ch show ?thesis by auto
qed

text \<open>A dry run reads the content of the entry and nothing else.\<close>

lemma process_entry_second_dryrun:
  assumes first: "process_entry x bootfd gptfd ent True initialize bctctx w = (Inr c, w1)"
  shows "\<exists>w2. process_entry x bootfd gptfd ent True initialize bctctx w1 = (Inr bctctx, w2)
      \<and> changes w2 = changes w1"
proof -
  let ?len = "length_bytes ent" and ?off = "bup_offset ent"
  obtain r0 w0 where sp: "bup_setpos ?off w = (r0, w0)" by (cases "bup_setpos ?off w")
  obtain r1 wc where rc: "read_content ?len 0 w0 = (r1, wc)" by (cases "read_content ?len 0 w0")
  from first sp rc obtain u where r0: "r0 \<noteq> -1" and r1: "r1 = Inr u" and w1: "w1 = wc"
    by (cases r1) (auto simp: process_entry_def split: if_splits simp del: read_content.simps)
  from content_Inr [OF sp r0 rc [unfolded r1]] obtain b where b: "w_dev w BupFile = Some b"
    and cfit: "?len \<noteq> 0 \<longrightarrow> ?len \<le> min (contentbuf_size w) (dv_size b - ?off)
            \<and> min (contentbuf_size w) (dv_size b - ?off) \<le> length (contentbuf w)"
    and wc: "wc = after_content ?off ?len w" by blast
  note ac = after_content_simps [OF b, of ?off ?len, folded wc]
  note ab = after_content_buf [OF b cfit, folded wc]
  have b1: "w_dev w1 BupFile = Some b" using b by (simp add: w1 ac)
  have cfit1: "?len \<noteq> 0 \<longrightarrow> ?len \<le> min (contentbuf_size w1) (dv_size b - ?off)
            \<and> min (contentbuf_size w1) (dv_size b - ?off) \<le> length (contentbuf w1)"
    using cfit by (simp add: w1 ac ab)
  from content_ok [OF b1 cfit1] obtain w0' where
    sp2: "bup_setpos ?off w1 = (int ?off, w0')"
    and rc2: "read_content ?len 0 w0' = (Inr (), after_content ?off ?len w1)" by blast
  have pe: "process_entry x bootfd gptfd ent True initialize bctctx w1
      = (Inr bctctx, after_content ?off ?len w1)"
    unfolding process_entry_def using sp2 rc2 by (simp del: read_content.simps)
  have "changes (after_content ?off ?len w1) = changes w1"
    using after_content_simps(2) [OF b1, of ?off ?len] by (simp add: changes_def)
  with pe show ?thesis by blast
qed

text \<open>Forward lemmas: an entry whose partition differs from its content is written.\<close>

lemma process_entry_part:
  assumes b: "w_dev w BupFile = Some b"
    and cfit: "length_bytes ent \<noteq> 0 \<longrightarrow>
        length_bytes ent \<le> min (contentbuf_size w) (dv_size b - bup_offset ent)
        \<and> min (contentbuf_size w) (dv_size b - bup_offset ent) \<le> length (contentbuf w)"
    and p: "part ent = Some p"
  shows "process_entry x bootfd gptfd ent False initialize bctctx w
     = maybe_update_bootpart x bootfd gptfd ent (partname ent = ''BCT'') initialize bctctx
         (after_content (bup_offset ent) (length_bytes ent) w)"
proof -
  from content_ok [OF b cfit] obtain w0 where
    "bup_setpos (bup_offset ent) w = (int (bup_offset ent), w0)"
    "read_content (length_bytes ent) 0 w0
       = (Inr (), after_content (bup_offset ent) (length_bytes ent) w)" by blast
  with p show ?thesis by (simp add: process_entry_def del: read_content.simps)
qed

lemma bootpart_write:
  assumes p: "part ent = Some p" "length_bytes ent \<le> partsize_of p"
    and g: "\<not> (bootdev_size w \<le> first_lba p * 512 \<and> gptfd = None)"
    and fd: "fd = (if bootdev_size w \<le> first_lba p * 512 then the gptfd else bootfd)"
      "offset = (if bootdev_size w \<le> first_lba p * 512 then first_lba p * 512 - bootdev_size w
                 else first_lba p * 512)"
    and d: "w_dev w fd = Some d" "offset + partsize_of p \<le> dv_size d"
      "partsize_of p \<le> length (slotbuf w)" "partsize_of p \<le> slotbuf_size w"
    and cb: "length_bytes ent \<le> length (contentbuf w)"
    and ne: "dev_bytes d offset (length_bytes ent) \<noteq> take (length_bytes ent) (contentbuf w)"
  shows "\<exists>w1. maybe_update_bootpart x bootfd gptfd ent False initialize bctctx w = (Inr bctctx, w1)
     \<and> w_log w1 = w_log w @ [EvLseek fd offset]
          @ wca_log fd (contentbuf w) (length_bytes ent) offset (partsize_of p) @ [EvFsync fd]"
proof -
  let ?len = "length_bytes ent" and ?ps = "partsize_of p"
  let ?w2 = "after_read fd offset ?ps w"
  have rd: "read_completely_at fd ?ps offset w = (Inr ?ps, ?w2)"
    by (rule read_completely_at_ok0 [OF d(1)]) (simp add: d)
  note ar = after_read_simps [OF d(1), of offset ?ps]
  have sb: "take ?len (drop 0 (slotbuf ?w2)) = dev_bytes d (offset + 0) ?len"
    using d p(2) by (intro after_read_buf) simp_all
  have lsb: "length (slotbuf ?w2) = length (slotbuf w)"
    using after_read_buf(1) [OF d(1), of ?ps offset] d by simp
  have mc: "memcmp_eq (contentbuf ?w2) (slotbuf ?w2) 0 ?len = Some False"
    using cb p(2) d(3) sb ne by (simp add: memcmp_eq_def ar lsb)
  have "map_option dv_size (w_dev ?w2 fd) = Some (dv_size d)" using d(1) by (simp add: ar)
  from wca_ok_frame [OF this, of offset ?len ?ps "contentbuf ?w2"] d p(2) cb
  obtain w3 where wc3: "write_completely_at fd (contentbuf ?w2) ?len offset ?ps ?w2 = (Inr ?len, w3)"
    by (auto simp: ar)
  from wca_Inr [OF wc3]
  have l3: "w_log w3 = w_log ?w2 @ wca_log fd (contentbuf w) ?len offset ?ps"
    by (simp add: ar)
  have mu: "maybe_update_bootpart x bootfd gptfd ent False initialize bctctx w
      = (Inr bctctx, sys_fsync fd w3)"
    using p g fd rd mc wc3 by (simp add: maybe_update_bootpart_def Let_def)
  moreover have "w_log (sys_fsync fd w3) = w_log w @ [EvLseek fd offset]
          @ wca_log fd (contentbuf w) ?len offset ?ps @ [EvFsync fd]"
    by (simp add: sys_fsync_def l3 ar)
  ultimately show ?thesis by blast
qed

lemma wca_log_take: "take n buf = take n buf' \<Longrightarrow> wca_log fd buf n off e = wca_log fd buf' n off e"
  by (simp add: wca_log_def)

lemma process_entry_write:
  assumes b: "w_dev w BupFile = Some b"
    and cfit: "length_bytes ent \<noteq> 0 \<longrightarrow>
        length_bytes ent \<le> min (contentbuf_size w) (dv_size b - bup_offset ent)
        \<and> min (contentbuf_size w) (dv_size b - bup_offset ent) \<le> length (contentbuf w)"
    and p: "part ent = Some p" "partname ent \<noteq> ''BCT''" "length_bytes ent \<le> partsize_of p"
    and g: "\<not> (bootdev_size w \<le> first_lba p * 512 \<and> gptfd = None)"
    and fd: "fd = (if bootdev_size w \<le> first_lba p * 512 then the gptfd else bootfd)"
      "offset = (if bootdev_size w \<le> first_lba p * 512 then first_lba p * 512 - bootdev_size w
                 else first_lba p * 512)"
    and d: "w_dev w fd = Some d" "offset + partsize_of p \<le> dv_size d"
      "partsize_of p \<le> length (slotbuf w)" "partsize_of p \<le> slotbuf_size w"
    and ne: "dev_bytes d offset (length_bytes ent) \<noteq> dev_bytes b (bup_offset ent) (length_bytes ent)"
  shows "\<exists>w1. process_entry x bootfd gptfd ent False initialize bctctx w = (Inr bctctx, w1)
     \<and> w_log w1 = w_log w @ [EvLseek BupFile (bup_offset ent), EvLseek fd offset]
          @ wca_log fd (dev_bytes b (bup_offset ent) (length_bytes ent)) (length_bytes ent) offset
              (partsize_of p)
          @ [EvFsync fd]"
proof -
  let ?len = "length_bytes ent" and ?off = "bup_offset ent" and ?ps = "partsize_of p"
  define wc where "wc = after_content ?off ?len w"
  note ac = after_content_simps [OF b, of ?off ?len, folded wc_def]
  note ab = after_content_buf [OF b cfit, folded wc_def]
  have len0: "?len \<noteq> 0"
  proof
    assume "?len = 0"
    with ne show False by (simp add: dev_bytes_def)
  qed
  have gc: "\<not> (bootdev_size wc \<le> first_lba p * 512 \<and> gptfd = None)" using g by (simp add: ac)
  have fdc: "fd = (if bootdev_size wc \<le> first_lba p * 512 then the gptfd else bootfd)"
    "offset = (if bootdev_size wc \<le> first_lba p * 512 then first_lba p * 512 - bootdev_size wc
                 else first_lba p * 512)"
    using fd by (simp_all add: ac)
  have dc: "w_dev wc fd = Some d" "offset + ?ps \<le> dv_size d"
    "?ps \<le> length (slotbuf wc)" "?ps \<le> slotbuf_size wc"
    using d by (simp_all add: ac)
  have lc: "?len \<le> length (contentbuf wc)" using ab len0 by simp
  have nec: "dev_bytes d offset ?len \<noteq> take ?len (contentbuf wc)" using ne ab(1) by simp
  from bootpart_write [OF p(1) p(3) gc fdc dc lc nec, of x initialize bctctx] obtain w1 where
    mu: "maybe_update_bootpart x bootfd gptfd ent False initialize bctctx wc = (Inr bctctx, w1)"
    and l1: "w_log w1 = w_log wc @ [EvLseek fd offset]
          @ wca_log fd (contentbuf wc) ?len offset ?ps @ [EvFsync fd]" by blast
  have "process_entry x bootfd gptfd ent False initialize bctctx w = (Inr bctctx, w1)"
    using process_entry_part [OF b cfit p(1), of x bootfd gptfd initialize bctctx] p(2) mu
    by (simp add: wc_def)
  moreover have "wca_log fd (contentbuf wc) ?len offset ?ps
      = wca_log fd (dev_bytes b ?off ?len) ?len offset ?ps"
    by (rule wca_log_take) (simp add: ab(1))
  ultimately show ?thesis using l1 by (simp add: ac)
qed

lemma update_bct_loop_ok_gen:
  assumes p: "part ent = Some p" and len: "length_bytes ent \<le> length newbct"
    and fit: "\<And>j. j < 3 \<Longrightarrow> first_lba p * 512 + bct_offset j slot block + max (length_bytes ent) slot \<le> sz"
    and cmp: "\<And>j. j < 3 \<Longrightarrow> bct_same curbct newbct (bct_offset j slot block) (length_bytes ent) \<noteq> None"
  shows "map_option dv_size (w_dev w fd) = Some sz \<Longrightarrow> slot \<le> slotbuf_size w \<Longrightarrow>
     \<exists>w'. update_bct_loop fd curbct newbct ent block slot i w = (Inr (), w') \<and> frame w w'"
proof (induction "3 - i" arbitrary: i w)
  case 0
  then have "\<not> i < 3" by simp
  then show ?case by (simp add: frame_refl)
next
  case (Suc k)
  then have i: "i < 3" and k: "k = 3 - (i + 1)" by simp_all
  from cmp [OF i] obtain m where sm: "bct_same curbct newbct (bct_offset i slot block) (length_bytes ent) = Some m"
    by auto
  show ?case
  proof (cases m)
    case True
    from Suc.hyps(1) [OF k Suc.prems] obtain w' where
      r: "update_bct_loop fd curbct newbct ent block slot (i + 1) w = (Inr (), w')" and f2: "frame w w'"
      by blast
    have "update_bct_loop fd curbct newbct ent block slot i w = (Inr (), w')"
      using i sm True r by (simp add: update_bct_loop.simps [of _ _ _ _ _ _ i])
    with f2 show ?thesis by blast
  next
    case False
    from fit [OF i] have f: "first_lba p * 512 + bct_offset i slot block + length_bytes ent \<le> sz"
      "first_lba p * 512 + bct_offset i slot block + slot \<le> sz" by simp_all
    from wca_ok_frame [OF Suc.prems(1) f len Suc.prems(2)] obtain w1 where
      w1: "write_completely_at fd newbct (length_bytes ent) (first_lba p * 512 + bct_offset i slot block) slot w
            = (Inr (length_bytes ent), w1)" and f1: "frame w w1" by blast
    from f1 Suc.prems have a: "map_option dv_size (w_dev w1 fd) = Some sz" "slot \<le> slotbuf_size w1"
      by (simp_all add: frame_def)
    from Suc.hyps(1) [OF k a] obtain w' where
      r: "update_bct_loop fd curbct newbct ent block slot (i + 1) w1 = (Inr (), w')" and f2: "frame w1 w'"
      by blast
    have "update_bct_loop fd curbct newbct ent block slot i w = (Inr (), w')"
      using i p w1 r sm False by (simp add: update_bct_loop.simps [of _ _ _ _ _ _ i])
    with f1 f2 show ?thesis by (blast intro: frame_trans)
  qed
qed

lemma bct_bootpart_ok:
  assumes p: "part ent = Some p"
    and soc: "soctype w \<noteq> TEGRA_SOCTYPE_210"
    and inb: "first_lba p * 512 < bootdev_size w"
    and lay: "2 * bct_slot_size (spiboot_platform w) (length_bytes ent) \<le> bct_block_size (spiboot_platform w)"
    and room: "bct_block_size (spiboot_platform w) + length_bytes ent \<le> partsize_of p"
    and d: "w_dev w bootfd = Some d" "first_lba p * 512 + partsize_of p \<le> dv_size d"
      "partsize_of p \<le> length (slotbuf w)"
      "bct_slot_size (spiboot_platform w) (length_bytes ent) \<le> slotbuf_size w"
      "first_lba p * 512 + bct_block_size (spiboot_platform w)
         + bct_slot_size (spiboot_platform w) (length_bytes ent) \<le> dv_size d"
    and cb: "length_bytes ent \<le> length (contentbuf w)"
    and valid: "\<And>cur new. bct_update_valid_t18x x cur new" "\<And>cur new. bct_update_valid_t19x x cur new"
    and cur: "curbct = (if initialize \<noteq> 0 then None
                        else Some (slotbuf (after_read bootfd (first_lba p * 512) (partsize_of p) w)))"
  shows "\<exists>w1. maybe_update_bootpart x bootfd gptfd ent True initialize bctctx w = (Inr bctctx, w1)
     \<and> w_log w1 = w_log w @ [EvLseek bootfd (first_lba p * 512)]
          @ bct_step_log bootfd curbct (contentbuf w) (length_bytes ent) (first_lba p * 512)
              (bct_slot_size (spiboot_platform w) (length_bytes ent))
              (bct_slot_size (spiboot_platform w) (length_bytes ent))
          @ bct_step_log bootfd curbct (contentbuf w) (length_bytes ent) (first_lba p * 512)
              (bct_slot_size (spiboot_platform w) (length_bytes ent))
              (bct_block_size (spiboot_platform w))
          @ bct_step_log bootfd curbct (contentbuf w) (length_bytes ent) (first_lba p * 512)
              (bct_slot_size (spiboot_platform w) (length_bytes ent)) 0
          @ [EvFsync bootfd]"
proof -
  let ?len = "length_bytes ent" and ?ps = "partsize_of p" and ?base = "first_lba p * 512"
  define slot where "slot = bct_slot_size (spiboot_platform w) ?len"
  define block where "block = bct_block_size (spiboot_platform w)"
  note lay' = lay [folded slot_def block_def]
  have le: "?len \<le> ?ps" using room by simp
  have ls: "?len \<le> slot" by (simp add: slot_def bct_slot_size_ge)
  let ?w2 = "after_read bootfd ?base ?ps w"
  have rd: "read_completely_at bootfd ?ps ?base w = (Inr ?ps, ?w2)"
    by (rule read_completely_at_ok0 [OF d(1)]) (simp add: d)
  note ar = after_read_simps [OF d(1), of ?base ?ps]
  have lsb: "length (slotbuf ?w2) = length (slotbuf w)"
    using d by (intro after_read_buf) simp_all
  have cmp: "bct_same curbct (contentbuf ?w2) (bct_offset j slot block) ?len \<noteq> None" if "j < 3" for j
  proof -
    from bct_offset_le [OF that lay'] room d(3)
    have "bct_offset j slot block + ?len \<le> length (slotbuf ?w2)" by (simp add: block_def lsb)
    with cb show ?thesis by (auto simp: cur bct_same_def memcmp_eq_def ar)
  qed
  have fit: "?base + bct_offset j slot block + max ?len slot \<le> dv_size d" if "j < 3" for j
    using bct_offset_le [OF that lay'] d(5) ls by (simp add: slot_def block_def max_def)
  have dv2: "map_option dv_size (w_dev ?w2 bootfd) = Some (dv_size d)" using d(1) by (simp add: ar)
  have sl2: "slot \<le> slotbuf_size ?w2" using d(4) by (simp add: ar slot_def)
  have cb2: "?len \<le> length (contentbuf ?w2)" using cb by (simp add: ar)
  from update_bct_loop_ok_gen [OF p cb2 fit cmp dv2 sl2, of 0] obtain w3 where
    lp: "update_bct_loop bootfd curbct (contentbuf ?w2) ent block slot 0 ?w2 = (Inr (), w3)"
    by blast
  let ?w1 = "(sys_fsync bootfd w3)\<lparr>bct_updated := True\<rparr>"
  have ub: "update_bct x bootfd curbct (contentbuf ?w2) ent ?w2 = (Inr (), ?w1)"
    using soc lp valid
    by (simp add: update_bct_eq ar slot_def [symmetric] block_def [symmetric]
        split: option.splits del: update_bct_loop.simps)
  from update_bct_Inr [OF ub p, of slot block]
  have l1: "w_log ?w1 = w_log ?w2
      @ bct_step_log bootfd curbct (contentbuf ?w2) ?len ?base slot slot
      @ bct_step_log bootfd curbct (contentbuf ?w2) ?len ?base slot block
      @ bct_step_log bootfd curbct (contentbuf ?w2) ?len ?base slot 0
      @ [EvFsync bootfd]"
    by (simp add: slot_def block_def bct_slot_size_def bct_block_size_def ar)
  have mu: "maybe_update_bootpart x bootfd gptfd ent True initialize bctctx w = (Inr bctctx, ?w1)"
    using p le inb rd soc ub by (simp add: maybe_update_bootpart_def Let_def ar cur)
  from mu l1 show ?thesis
    unfolding slot_def block_def by (intro exI [of _ ?w1]) (simp add: ar)
qed

lemma process_entry_bct_ok:
  assumes b: "w_dev w BupFile = Some b"
    and cfit: "length_bytes ent \<noteq> 0 \<longrightarrow>
        length_bytes ent \<le> min (contentbuf_size w) (dv_size b - bup_offset ent)
        \<and> min (contentbuf_size w) (dv_size b - bup_offset ent) \<le> length (contentbuf w)"
    and p: "part ent = Some p" "partname ent = ''BCT''"
    and soc: "soctype w \<noteq> TEGRA_SOCTYPE_210"
    and inb: "first_lba p * 512 < bootdev_size w"
    and lay: "2 * bct_slot_size (spiboot_platform w) (length_bytes ent) \<le> bct_block_size (spiboot_platform w)"
    and room: "bct_block_size (spiboot_platform w) + length_bytes ent \<le> partsize_of p"
    and d: "w_dev w bootfd = Some d" "first_lba p * 512 + partsize_of p \<le> dv_size d"
      "partsize_of p \<le> length (slotbuf w)"
      "bct_slot_size (spiboot_platform w) (length_bytes ent) \<le> slotbuf_size w"
      "first_lba p * 512 + bct_block_size (spiboot_platform w)
         + bct_slot_size (spiboot_platform w) (length_bytes ent) \<le> dv_size d"
    and len: "length_bytes ent \<le> length (contentbuf w)"
    and valid: "\<And>cur new. bct_update_valid_t18x x cur new" "\<And>cur new. bct_update_valid_t19x x cur new"
  shows "\<exists>w1 newbct. process_entry x bootfd gptfd ent False initialize bctctx w = (Inr bctctx, w1)
     \<and> take (length_bytes ent) newbct = dev_bytes b (bup_offset ent) (length_bytes ent)
     \<and> (initialize \<noteq> 0 \<longrightarrow>
         w_log w1 = w_log w @ [EvLseek BupFile (bup_offset ent), EvLseek bootfd (first_lba p * 512)]
          @ wca_log bootfd newbct (length_bytes ent)
              (first_lba p * 512 + bct_slot_size (spiboot_platform w) (length_bytes ent))
              (bct_slot_size (spiboot_platform w) (length_bytes ent))
          @ wca_log bootfd newbct (length_bytes ent)
              (first_lba p * 512 + bct_block_size (spiboot_platform w))
              (bct_slot_size (spiboot_platform w) (length_bytes ent))
          @ wca_log bootfd newbct (length_bytes ent) (first_lba p * 512 + 0)
              (bct_slot_size (spiboot_platform w) (length_bytes ent))
          @ [EvFsync bootfd])"
proof -
  let ?len = "length_bytes ent" and ?off = "bup_offset ent" and ?ps = "partsize_of p"
  define wc where "wc = after_content ?off ?len w"
  note ac = after_content_simps [OF b, of ?off ?len, folded wc_def]
  note ab = after_content_buf [OF b cfit, folded wc_def]
  define curbct where "curbct = (if initialize \<noteq> 0 then None
      else Some (slotbuf (after_read bootfd (first_lba p * 512) ?ps wc)))"
  have h: "soctype wc \<noteq> TEGRA_SOCTYPE_210" "first_lba p * 512 < bootdev_size wc"
    "2 * bct_slot_size (spiboot_platform wc) ?len \<le> bct_block_size (spiboot_platform wc)"
    "bct_block_size (spiboot_platform wc) + ?len \<le> ?ps"
    using soc inb lay room by (simp_all add: ac)
  have dc: "w_dev wc bootfd = Some d" "first_lba p * 512 + ?ps \<le> dv_size d"
      "?ps \<le> length (slotbuf wc)"
      "bct_slot_size (spiboot_platform wc) ?len \<le> slotbuf_size wc"
      "first_lba p * 512 + bct_block_size (spiboot_platform wc)
         + bct_slot_size (spiboot_platform wc) ?len \<le> dv_size d"
    using d by (simp_all add: ac)
  have lc: "?len \<le> length (contentbuf wc)" using len ab by simp
  from bct_bootpart_ok [OF p(1) h dc lc valid curbct_def, of gptfd bctctx] obtain w1 where
    mu: "maybe_update_bootpart x bootfd gptfd ent True initialize bctctx wc = (Inr bctctx, w1)"
    and l1: "w_log w1 = w_log wc @ [EvLseek bootfd (first_lba p * 512)]
          @ bct_step_log bootfd curbct (contentbuf wc) ?len (first_lba p * 512)
              (bct_slot_size (spiboot_platform wc) ?len) (bct_slot_size (spiboot_platform wc) ?len)
          @ bct_step_log bootfd curbct (contentbuf wc) ?len (first_lba p * 512)
              (bct_slot_size (spiboot_platform wc) ?len) (bct_block_size (spiboot_platform wc))
          @ bct_step_log bootfd curbct (contentbuf wc) ?len (first_lba p * 512)
              (bct_slot_size (spiboot_platform wc) ?len) 0
          @ [EvFsync bootfd]" by blast
  have pe: "process_entry x bootfd gptfd ent False initialize bctctx w = (Inr bctctx, w1)"
    using process_entry_part [OF b cfit p(1), of x bootfd gptfd initialize bctctx] p(2) mu
    by (simp add: wc_def)
  show ?thesis
    using pe ab(1) l1
    by (intro exI [of _ w1] exI [of _ "contentbuf wc"])
       (simp add: ac curbct_def bct_step_log_def bct_same_def)
qed

text \<open>The state in which \<open>process_entry\<close> has read the content of the entry.\<close>

lemma process_entry_content:
  assumes b: "w_dev w BupFile = Some b" "bup_offset ent + length_bytes ent \<le> dv_size b"
    and cb: "length_bytes ent \<le> contentbuf_size w" "contentbuf_size w = length (contentbuf w)"
    and len: "0 < length_bytes ent"
  shows "\<exists>w0 w1. bup_setpos (bup_offset ent) w = (int (bup_offset ent), w0)
      \<and> read_content (length_bytes ent) 0 w0 = (Inr (), w1)
      \<and> w_log w1 = w_log w @ [EvLseek BupFile (bup_offset ent)]
      \<and> take (length_bytes ent) (contentbuf w1) = dev_bytes b (bup_offset ent) (length_bytes ent)
      \<and> length (contentbuf w1) = length (contentbuf w)
      \<and> slotbuf w1 = slotbuf w \<and> w_dev w1 = w_dev w \<and> bootdev_size w1 = bootdev_size w
      \<and> soctype w1 = soctype w \<and> spiboot_platform w1 = spiboot_platform w
      \<and> slotbuf_size w1 = slotbuf_size w \<and> contentbuf_size w1 = contentbuf_size w
      \<and> bct_updated w1 = bct_updated w"
proof -
  let ?off = "bup_offset ent"
  let ?len = "length_bytes ent"
  let ?w0 = "w\<lparr>w_pos := (w_pos w)(BupFile := ?off), w_log := w_log w @ [EvLseek BupFile ?off]\<rparr>"
  have l0: "bup_setpos ?off w = (int ?off, ?w0)" using b by (simp add: bup_setpos_def sys_lseek_def)
  let ?k = "min (contentbuf_size w) (dv_size b - ?off)"
  let ?cb = "buf_store (contentbuf w) 0 (dev_bytes b ?off ?k)"
  let ?w1 = "?w0\<lparr>w_pos := (w_pos ?w0)(BupFile := ?off + ?k), contentbuf := ?cb\<rparr>"
  have rc: "read_content ?len 0 ?w0 = (Inr (), ?w1)"
    using read_content_ok [of ?w0 b ?off ?len] b cb len by simp
  have k: "?len \<le> ?k" "?k \<le> length (contentbuf w)" using b cb by simp_all
  have "take ?len ?cb = dev_bytes b ?off ?len"
    using k by (simp add: take_buf_store0 take_dev_bytes)
  moreover have "length ?cb = length (contentbuf w)" using k by (simp add: length_buf_store0)
  ultimately show ?thesis using l0 rc by (intro exI [of _ ?w0] exI [of _ ?w1]) simp
qed

text \<open>A device node is erased and written, whatever it holds.\<close>

lemma process_entry_node_ok:
  assumes b: "w_dev w BupFile = Some b" "bup_offset ent + length_bytes ent \<le> dv_size b"
    and cb: "length_bytes ent \<le> contentbuf_size w" "contentbuf_size w = length (contentbuf w)"
    and len: "0 < length_bytes ent"
    and pn: "part ent = None"
    and d: "w_dev w (Node (devname ent)) = Some d" "length_bytes ent \<le> dv_size d"
      "dv_size d < 2 ^ 32" "dv_size d \<le> slotbuf_size w"
  shows "\<exists>w'. process_entry x bootfd gptfd ent False initialize bctctx w = (Inr bctctx, w')
     \<and> w_log w' = w_log w @ [EvLseek BupFile (bup_offset ent), EvLseek (Node (devname ent)) 0]
          @ wca_log (Node (devname ent)) (dev_bytes b (bup_offset ent) (length_bytes ent))
              (length_bytes ent) 0 (dv_size d)
          @ [EvFsync (Node (devname ent))]"
proof -
  let ?len = "length_bytes ent"
  let ?n = "Node (devname ent)"
  from process_entry_content [OF b cb len] obtain w0 w1 where
    sp: "bup_setpos (bup_offset ent) w = (int (bup_offset ent), w0)"
    and rc: "read_content ?len 0 w0 = (Inr (), w1)"
    and l1: "w_log w1 = w_log w @ [EvLseek BupFile (bup_offset ent)]"
    and c1: "take ?len (contentbuf w1) = dev_bytes b (bup_offset ent) ?len"
    and lc1: "length (contentbuf w1) = length (contentbuf w)"
    and s1: "w_dev w1 = w_dev w" "slotbuf_size w1 = slotbuf_size w"
    by blast
  have d1: "w_dev w1 ?n = Some d" using d s1 by simp
  let ?w2 = "w1\<lparr>w_pos := (w_pos w1)(?n := dv_size d)\<rparr>"
  have le: "sys_lseek_end ?n w1 = (int (dv_size d), ?w2)" using d1 by (simp add: sys_lseek_end_def)
  let ?w3 = "?w2\<lparr>w_pos := (w_pos ?w2)(?n := 0), w_log := w_log ?w2 @ [EvLseek ?n 0]\<rparr>"
  have l3: "sys_lseek ?n 0 ?w2 = (0, ?w3)" using d1 by (simp add: sys_lseek_def)
  have md: "nat (int (dv_size d) mod 2 ^ 32) = dv_size d"
    using d(3) by (simp add: nat_mod_distrib)
  have "map_option dv_size (w_dev ?w3 ?n) = Some (dv_size d)" using d1 by simp
  from wca_ok_frame [OF this, of 0 ?len "dv_size d" "contentbuf ?w3"] d cb lc1 s1
  obtain w4 where wc: "write_completely_at ?n (contentbuf ?w3) ?len 0 (dv_size d) ?w3 = (Inr ?len, w4)"
    by auto
  from wca_Inr [OF wc] c1
  have l4: "w_log w4 = w_log ?w3 @ wca_log ?n (dev_bytes b (bup_offset ent) ?len) ?len 0 (dv_size d)"
    by (simp add: wca_log_def)
  have "process_entry x bootfd gptfd ent False initialize bctctx w = (Inr bctctx, sys_fsync ?n w4)"
    using sp rc pn d1 le l3 wc md
    by (simp add: process_entry_def del: read_content.simps)
  with l1 l4 show ?thesis by (simp add: sys_fsync_def)
qed

lemma dev_bytes_const: "dev_bytes (const_dev n v) p k = replicate k v"
  by (simp add: dev_bytes_def const_dev_def map_replicate_const)

lemma updated_world_simps:
  "w_dev (updated_world soc spi) BootDev = Some (const_dev 8388608 1)"
  "w_dev (updated_world soc spi) GptDev = Some (const_dev 8388608 1)"
  "w_dev (updated_world soc spi) BupFile = Some (const_dev 4096 1)"
  "w_dev (updated_world soc spi) (Node p) =
     (if p = ''/dev/disk/by-partlabel/kernel'' then Some (const_dev 512 1) else None)"
  "w_log (updated_world soc spi) = []"
  "contentbuf (updated_world soc spi) = replicate 1024 1"
  "contentbuf_size (updated_world soc spi) = 1024"
  "slotbuf (updated_world soc spi) = replicate 65536 0"
  "slotbuf_size (updated_world soc spi) = 65536"
  "soctype (updated_world soc spi) = soc"
  "spiboot_platform (updated_world soc spi) = spi"
  "bootdev_size (updated_world soc spi) = 8388608"
  by (simp_all add: updated_world_def test_world_simps)

lemma part_entry_simps:
  "part (part_entry n a b len) = Some \<lparr>first_lba = a, last_lba = b\<rparr>"
  "length_bytes (part_entry n a b len) = len"
  "partname (part_entry n a b len) = n"
  "bup_offset (part_entry n a b len) = 0"
  by (simp_all add: part_entry_def)

lemma kernel_entry_simps:
  "part (kernel_entry len) = None" "devname (kernel_entry len) = ''/dev/disk/by-partlabel/kernel''"
  "bup_offset (kernel_entry len) = 0" "length_bytes (kernel_entry len) = len"
  by (simp_all add: kernel_entry_def)

lemma partsize_of_test: "partsize_of \<lparr>first_lba = 200, last_lba = 201\<rparr> = 1024"
  "partsize_of \<lparr>first_lba = 0, last_lba = 95\<rparr> = 49152"
  by (simp_all add: partsize_of_def)

lemma first_run_mb2:
  "\<exists>w1. process_entry test_extern BootDev None (part_entry ''mb2_b'' 200 201 512) False 0 None
      (test_world TEGRA_SOCTYPE_186 False) = (Inr None, w1)
    \<and> w_log w1 = [EvLseek BupFile 0, EvLseek BootDev 102400]
          @ wca_log BootDev (replicate 512 1) 512 102400 1024 @ [EvFsync BootDev]"
proof -
  let ?w = "test_world TEGRA_SOCTYPE_186 False"
  let ?e1 = "part_entry ''mb2_b'' 200 201 512"
  let ?p1 = "\<lparr>first_lba = 200, last_lba = 201\<rparr>"
  have ne: "replicate 512 (0::byte) \<noteq> replicate 512 1" by (simp add: replicate_eq_replicate)
  have "\<exists>w1. process_entry test_extern BootDev None ?e1 False 0 None ?w = (Inr None, w1)
     \<and> w_log w1 = w_log ?w @ [EvLseek BupFile (bup_offset ?e1), EvLseek BootDev 102400]
          @ wca_log BootDev (dev_bytes (const_dev 4096 1) (bup_offset ?e1) (length_bytes ?e1)) (length_bytes ?e1) 102400
              (partsize_of ?p1)
          @ [EvFsync BootDev]"
    by (rule process_entry_write [where b = "const_dev 4096 1" and d = "const_dev 8388608 0"])
       (simp_all add: part_entry_simps test_world_simps const_dev_simps dev_bytes_const partsize_of_test ne)
  then show ?thesis
    by (simp add: part_entry_simps test_world_simps dev_bytes_const partsize_of_test)
qed

lemma first_run_mb2_changes:
  "filter is_change ([EvLseek BupFile 0, EvLseek BootDev 102400]
          @ wca_log BootDev (replicate 512 1) 512 102400 1024 @ [EvFsync BootDev])
    = [EvWrite BootDev 102400 (replicate 1024 0), EvWrite BootDev 102400 (replicate 512 1)]"
  by (simp add: wca_log_def)

lemma first_run_bct:
  "\<exists>w3. process_entry test_extern BootDev None (part_entry ''BCT'' 0 95 512) False 0 None
      (test_world TEGRA_SOCTYPE_186 False) = (Inr None, w3)"
proof -
  let ?w = "test_world TEGRA_SOCTYPE_186 False"
  let ?e2 = "part_entry ''BCT'' 0 95 512"
  let ?p2 = "\<lparr>first_lba = 0, last_lba = 95\<rparr>"
  have "\<exists>w1 newbct. process_entry test_extern BootDev None ?e2 False 0 None ?w = (Inr None, w1)
     \<and> take (length_bytes ?e2) newbct = dev_bytes (const_dev 4096 1) (bup_offset ?e2) (length_bytes ?e2)
     \<and> ((0::nat) \<noteq> 0 \<longrightarrow>
         w_log w1 = w_log ?w @ [EvLseek BupFile (bup_offset ?e2), EvLseek BootDev (first_lba ?p2 * 512)]
          @ wca_log BootDev newbct (length_bytes ?e2)
              (first_lba ?p2 * 512 + bct_slot_size (spiboot_platform ?w) (length_bytes ?e2))
              (bct_slot_size (spiboot_platform ?w) (length_bytes ?e2))
          @ wca_log BootDev newbct (length_bytes ?e2)
              (first_lba ?p2 * 512 + bct_block_size (spiboot_platform ?w))
              (bct_slot_size (spiboot_platform ?w) (length_bytes ?e2))
          @ wca_log BootDev newbct (length_bytes ?e2) (first_lba ?p2 * 512 + 0)
              (bct_slot_size (spiboot_platform ?w) (length_bytes ?e2))
          @ [EvFsync BootDev])"
    by (rule process_entry_bct_ok [where b = "const_dev 4096 1" and d = "const_dev 8388608 0"])
       (simp_all add: part_entry_simps test_world_simps const_dev_simps partsize_of_test test_extern_def
          bct_slot_size_def bct_block_size_def)
  then show ?thesis by blast
qed

lemma node_rewritten:
  "\<exists>w'. process_entry test_extern BootDev (Some GptDev) (kernel_entry 512) False 0 None
      (updated_world TEGRA_SOCTYPE_186 False) = (Inr None, w')
    \<and> w_log w' = [EvLseek BupFile 0, EvLseek (Node ''/dev/disk/by-partlabel/kernel'') 0]
          @ wca_log (Node ''/dev/disk/by-partlabel/kernel'') (replicate 512 1) 512 0 512
          @ [EvFsync (Node ''/dev/disk/by-partlabel/kernel'')]"
proof -
  let ?w = "updated_world TEGRA_SOCTYPE_186 False"
  let ?e = "kernel_entry 512"
  have "\<exists>w'. process_entry test_extern BootDev (Some GptDev) ?e False 0 None ?w = (Inr None, w')
     \<and> w_log w' = w_log ?w @ [EvLseek BupFile (bup_offset ?e), EvLseek (Node (devname ?e)) 0]
          @ wca_log (Node (devname ?e)) (dev_bytes (const_dev 4096 1) (bup_offset ?e) (length_bytes ?e))
              (length_bytes ?e) 0 (dv_size (const_dev 512 1))
          @ [EvFsync (Node (devname ?e))]"
    by (rule process_entry_node_ok [where b = "const_dev 4096 1" and d = "const_dev 512 1"])
       (simp_all add: kernel_entry_simps updated_world_simps const_dev_simps)
  then show ?thesis
    by (simp add: kernel_entry_simps updated_world_simps const_dev_simps dev_bytes_const)
qed

lemma bct_rewritten:
  "\<exists>w3 newbct. process_entry test_extern BootDev (Some GptDev) (part_entry ''BCT'' 0 95 512) False 1 None
      (updated_world TEGRA_SOCTYPE_186 False) = (Inr None, w3)
    \<and> take 512 newbct = replicate 512 1
    \<and> w_log w3 = [EvLseek BupFile 0, EvLseek BootDev 0]
          @ wca_log BootDev newbct 512 512 512 @ wca_log BootDev newbct 512 16384 512
          @ wca_log BootDev newbct 512 0 512 @ [EvFsync BootDev]"
proof -
  let ?w = "updated_world TEGRA_SOCTYPE_186 False"
  let ?e2 = "part_entry ''BCT'' 0 95 512"
  let ?p2 = "\<lparr>first_lba = 0, last_lba = 95\<rparr>"
  have "\<exists>w1 newbct. process_entry test_extern BootDev (Some GptDev) ?e2 False 1 None ?w = (Inr None, w1)
     \<and> take (length_bytes ?e2) newbct = dev_bytes (const_dev 4096 1) (bup_offset ?e2) (length_bytes ?e2)
     \<and> ((1::nat) \<noteq> 0 \<longrightarrow>
         w_log w1 = w_log ?w @ [EvLseek BupFile (bup_offset ?e2), EvLseek BootDev (first_lba ?p2 * 512)]
          @ wca_log BootDev newbct (length_bytes ?e2)
              (first_lba ?p2 * 512 + bct_slot_size (spiboot_platform ?w) (length_bytes ?e2))
              (bct_slot_size (spiboot_platform ?w) (length_bytes ?e2))
          @ wca_log BootDev newbct (length_bytes ?e2)
              (first_lba ?p2 * 512 + bct_block_size (spiboot_platform ?w))
              (bct_slot_size (spiboot_platform ?w) (length_bytes ?e2))
          @ wca_log BootDev newbct (length_bytes ?e2) (first_lba ?p2 * 512 + 0)
              (bct_slot_size (spiboot_platform ?w) (length_bytes ?e2))
          @ [EvFsync BootDev])"
    by (rule process_entry_bct_ok [where b = "const_dev 4096 1" and d = "const_dev 8388608 1"])
       (simp_all add: part_entry_simps updated_world_simps const_dev_simps partsize_of_test test_extern_def
          bct_slot_size_def bct_block_size_def)
  then show ?thesis
    by (simp add: part_entry_simps updated_world_simps dev_bytes_const
          bct_slot_size_def bct_block_size_def)
qed

text \<open>
  Claim C4, as amended. For an entry that targets a partition of the boot device or of
  the second boot device, whether the second device is open or not: when \<open>process_entry\<close>
  has succeeded on the entry, \<open>process_entry\<close> called again on the same entry in the state
  that the first call left makes no \<open>write\<close> and no other change: the content that
  the first call wrote, or found, is read back from the partition and compared equal.
  An entry that is not the BCT is processed again with success. For the BCT this holds
  on tegra186 and tegra194 when not initializing, for a BCT partition in the boot device
  whose three copies do not overlap (two slots fit in a block) and lie in the partition
  (a block and the BCT fit in it); the second call succeeds or ends with the refusal of
  the BCT module, without a write in both cases. Nothing is said about entries for device
  nodes or about the BCT when initializing, which tegra210 always does: they are written
  without a comparison.
\<close>

theorem partition_not_written_twice:
  assumes first: "process_entry x bootfd gptfd ent dryrun initialize bctctx w = (Inr c, w1)"
    and p: "part ent = Some p"
    and fds: "bootfd \<noteq> BupFile" "gptfd \<noteq> Some BupFile"
    and bct: "partname ent = ''BCT'' \<Longrightarrow>
        initialize = 0 \<and> soctype w \<noteq> TEGRA_SOCTYPE_210 \<and> first_lba p * 512 < bootdev_size w
        \<and> 2 * bct_slot_size (spiboot_platform w) (length_bytes ent) \<le> bct_block_size (spiboot_platform w)
        \<and> bct_block_size (spiboot_platform w) + length_bytes ent \<le> partsize_of p"
  shows "\<exists>r w2. process_entry x bootfd gptfd ent dryrun initialize bctctx w1 = (r, w2)
      \<and> changes w2 = changes w1
      \<and> (r = Inr bctctx \<or> (partname ent = ''BCT'' \<and> r = Inl EValidation))"
proof (cases dryrun)
  case True
  from process_entry_second_dryrun [OF first [unfolded eqTrueI [OF True]]] True
  show ?thesis by simp blast
next
  case dr: False
  show ?thesis
  proof (cases "partname ent = ''BCT''")
    case True
    with bct have h: "initialize = 0" "soctype w \<noteq> TEGRA_SOCTYPE_210"
      "first_lba p * 512 < bootdev_size w"
      "2 * bct_slot_size (spiboot_platform w) (length_bytes ent) \<le> bct_block_size (spiboot_platform w)"
      "bct_block_size (spiboot_platform w) + length_bytes ent \<le> partsize_of p" by simp_all
    from dr first h(1) have "process_entry x bootfd gptfd ent False 0 bctctx w = (Inr c, w1)" by simp
    from process_entry_second_bct [OF this p True fds(1) h(2-5)] dr h(1) True
    show ?thesis by simp blast
  next
    case False
    from dr first have "process_entry x bootfd gptfd ent False initialize bctctx w = (Inr c, w1)" by simp
    from process_entry_second_part [OF this p False fds] dr
    show ?thesis by simp blast
  qed
qed

text \<open>
  The theorem for two entries on a tegra186 whose boot device holds zero bytes, without
  a second boot device: the partition \<open>mb2_b\<close> is erased and written by the first call
  and left alone by the second one; the BCT is written by the first call, and the second
  call changes nothing.
\<close>

theorem partition_not_written_twice_witness:
  "fst (process_entry test_extern BootDev None (part_entry ''mb2_b'' 200 201 512) False 0 None
          (test_world TEGRA_SOCTYPE_186 False)) = Inr None
   \<and> changes (snd (process_entry test_extern BootDev None (part_entry ''mb2_b'' 200 201 512) False 0 None
          (test_world TEGRA_SOCTYPE_186 False)))
       = [EvWrite BootDev 102400 (replicate 1024 0), EvWrite BootDev 102400 (replicate 512 1)]
   \<and> fst (process_entry test_extern BootDev None (part_entry ''mb2_b'' 200 201 512) False 0 None
          (snd (process_entry test_extern BootDev None (part_entry ''mb2_b'' 200 201 512) False 0 None
             (test_world TEGRA_SOCTYPE_186 False)))) = Inr None
   \<and> changes (snd (process_entry test_extern BootDev None (part_entry ''mb2_b'' 200 201 512) False 0 None
          (snd (process_entry test_extern BootDev None (part_entry ''mb2_b'' 200 201 512) False 0 None
             (test_world TEGRA_SOCTYPE_186 False)))))
       = [EvWrite BootDev 102400 (replicate 1024 0), EvWrite BootDev 102400 (replicate 512 1)]
   \<and> fst (process_entry test_extern BootDev None (part_entry ''BCT'' 0 95 512) False 0 None
          (test_world TEGRA_SOCTYPE_186 False)) = Inr None
   \<and> changes (snd (process_entry test_extern BootDev None (part_entry ''BCT'' 0 95 512) False 0 None
          (snd (process_entry test_extern BootDev None (part_entry ''BCT'' 0 95 512) False 0 None
             (test_world TEGRA_SOCTYPE_186 False)))))
       = changes (snd (process_entry test_extern BootDev None (part_entry ''BCT'' 0 95 512) False 0 None
             (test_world TEGRA_SOCTYPE_186 False)))"
proof -
  let ?w = "test_world TEGRA_SOCTYPE_186 False"
  let ?e1 = "part_entry ''mb2_b'' 200 201 512" and ?e2 = "part_entry ''BCT'' 0 95 512"
  let ?p1 = "\<lparr>first_lba = 200, last_lba = 201\<rparr>" and ?p2 = "\<lparr>first_lba = 0, last_lba = 95\<rparr>"
  from first_run_mb2 obtain w1 where
    f1: "process_entry test_extern BootDev None ?e1 False 0 None ?w = (Inr None, w1)"
    and l1: "w_log w1 = [EvLseek BupFile 0, EvLseek BootDev 102400]
          @ wca_log BootDev (replicate 512 1) 512 102400 1024 @ [EvFsync BootDev]" by blast
  have c1: "changes w1 = [EvWrite BootDev 102400 (replicate 1024 0), EvWrite BootDev 102400 (replicate 512 1)]"
    unfolding changes_def l1 by (rule first_run_mb2_changes)
  have "\<exists>r w2. process_entry test_extern BootDev None ?e1 False 0 None w1 = (r, w2)
      \<and> changes w2 = changes w1
      \<and> (r = Inr None \<or> (partname ?e1 = ''BCT'' \<and> r = Inl EValidation))"
    by (rule partition_not_written_twice [OF f1, where p = ?p1]) (simp_all add: part_entry_simps)
  then obtain w2 where s1: "process_entry test_extern BootDev None ?e1 False 0 None w1 = (Inr None, w2)"
    and c2: "changes w2 = changes w1"
    by (auto simp: part_entry_simps)
  from first_run_bct obtain w3 where
    f2: "process_entry test_extern BootDev None ?e2 False 0 None ?w = (Inr None, w3)" by blast
  have "\<exists>r w4. process_entry test_extern BootDev None ?e2 False 0 None w3 = (r, w4)
      \<and> changes w4 = changes w3
      \<and> (r = Inr None \<or> (partname ?e2 = ''BCT'' \<and> r = Inl EValidation))"
    by (rule partition_not_written_twice [OF f2, where p = ?p2])
       (simp_all add: part_entry_simps test_world_simps partsize_of_test bct_slot_size_def bct_block_size_def)
  then obtain r' w4 where s2: "process_entry test_extern BootDev None ?e2 False 0 None w3 = (r', w4)"
    and c4: "changes w4 = changes w3" by blast
  show ?thesis
    unfolding f1 f2 snd_conv fst_conv s1 s2 c1 c2 c4 by simp
qed

text \<open>
  Claim C4, as stated, includes the entries for external device nodes and every BCT. The
  node \<open>kernel\<close> holds the 512 bytes of the content of its entry, as after an update;
  \<open>process_entry\<close> erases it and writes it again. The BCT partition holds the new BCT at
  the three offsets; when initializing, \<open>process_entry\<close> erases and writes the three
  copies again.
\<close>

theorem unchanged_targets_rewritten_counterexample:
  "map_option (\<lambda>d. dev_bytes d 0 512)
       (w_dev (updated_world TEGRA_SOCTYPE_186 False) (Node ''/dev/disk/by-partlabel/kernel''))
     = map_option (\<lambda>d. dev_bytes d 0 512) (w_dev (updated_world TEGRA_SOCTYPE_186 False) BupFile)
   \<and> fst (process_entry test_extern BootDev (Some GptDev) (kernel_entry 512) False 0 None
          (updated_world TEGRA_SOCTYPE_186 False)) = Inr None
   \<and> changes (snd (process_entry test_extern BootDev (Some GptDev) (kernel_entry 512) False 0 None
          (updated_world TEGRA_SOCTYPE_186 False)))
     = [EvWrite (Node ''/dev/disk/by-partlabel/kernel'') 0 (replicate 512 0),
        EvWrite (Node ''/dev/disk/by-partlabel/kernel'') 0 (replicate 512 1)]
   \<and> map_option (\<lambda>d. (dev_bytes d 512 512, dev_bytes d 16384 512, dev_bytes d 0 512))
       (w_dev (updated_world TEGRA_SOCTYPE_186 False) BootDev)
     = map_option (\<lambda>d. (dev_bytes d 0 512, dev_bytes d 0 512, dev_bytes d 0 512))
       (w_dev (updated_world TEGRA_SOCTYPE_186 False) BupFile)
   \<and> fst (process_entry test_extern BootDev (Some GptDev) (part_entry ''BCT'' 0 95 512) False 1 None
          (updated_world TEGRA_SOCTYPE_186 False)) = Inr None
   \<and> changes (snd (process_entry test_extern BootDev (Some GptDev) (part_entry ''BCT'' 0 95 512) False 1 None
          (updated_world TEGRA_SOCTYPE_186 False)))
     = [EvWrite BootDev 512 (replicate 512 0), EvWrite BootDev 512 (replicate 512 1),
        EvWrite BootDev 16384 (replicate 512 0), EvWrite BootDev 16384 (replicate 512 1),
        EvWrite BootDev 0 (replicate 512 0), EvWrite BootDev 0 (replicate 512 1)]"
proof -
  let ?w = "updated_world TEGRA_SOCTYPE_186 False"
  from node_rewritten obtain w' where
    r: "process_entry test_extern BootDev (Some GptDev) (kernel_entry 512) False 0 None ?w = (Inr None, w')"
    and l: "w_log w' = [EvLseek BupFile 0, EvLseek (Node ''/dev/disk/by-partlabel/kernel'') 0]
          @ wca_log (Node ''/dev/disk/by-partlabel/kernel'') (replicate 512 1) 512 0 512
          @ [EvFsync (Node ''/dev/disk/by-partlabel/kernel'')]" by blast
  have c: "changes w' = [EvWrite (Node ''/dev/disk/by-partlabel/kernel'') 0 (replicate 512 0),
        EvWrite (Node ''/dev/disk/by-partlabel/kernel'') 0 (replicate 512 1)]"
    by (simp add: changes_def l wca_log_def)
  from bct_rewritten obtain w3 newbct where
    f2: "process_entry test_extern BootDev (Some GptDev) (part_entry ''BCT'' 0 95 512) False 1 None ?w
      = (Inr None, w3)"
    and nb: "take 512 newbct = replicate 512 1"
    and l3: "w_log w3 = [EvLseek BupFile 0, EvLseek BootDev 0]
          @ wca_log BootDev newbct 512 512 512 @ wca_log BootDev newbct 512 16384 512
          @ wca_log BootDev newbct 512 0 512 @ [EvFsync BootDev]" by blast
  have c3: "changes w3 = [EvWrite BootDev 512 (replicate 512 0), EvWrite BootDev 512 (replicate 512 1),
        EvWrite BootDev 16384 (replicate 512 0), EvWrite BootDev 16384 (replicate 512 1),
        EvWrite BootDev 0 (replicate 512 0), EvWrite BootDev 0 (replicate 512 1)]"
    by (simp add: changes_def l3 wca_log_def nb)
  have pre: "map_option (\<lambda>d. dev_bytes d 0 512) (w_dev ?w (Node ''/dev/disk/by-partlabel/kernel''))
     = map_option (\<lambda>d. dev_bytes d 0 512) (w_dev ?w BupFile)"
    "map_option (\<lambda>d. (dev_bytes d 512 512, dev_bytes d 16384 512, dev_bytes d 0 512)) (w_dev ?w BootDev)
     = map_option (\<lambda>d. (dev_bytes d 0 512, dev_bytes d 0 512, dev_bytes d 0 512)) (w_dev ?w BupFile)"
    by (simp_all add: updated_world_simps dev_bytes_const)
  show ?thesis
    unfolding r f2 snd_conv fst_conv c c3 using pre by simp
qed

end
